(* ===== verification/Prelude.thy ===== *)
theory Prelude
  imports
    Main
    "HOL-Library.Word"
    "HOL-Library.Finite_Map"
    "HOL-Library.Char_ord"
    "HOL-Library.List_Lexorder"
    "HOL-Library.Multiset"
    "HOL-Library.Monad_Syntax"
begin

section \<open>Shared vocabulary of the GoRedis development\<close>

text \<open>
  The types and the generic facts every component uses: Go's 64-bit integers as
  \<^typ>\<open>64 word\<close>, the order in which Go ranges over a map as an explicit schedule,
  and small lemmas on finite maps. A Go \<open>map\<close> is an \<open>fmap\<close> (finite, compared by
  its contents), a \<open>map[T]struct{}\<close> is an \<open>fset\<close>, and a \<open>string\<close> is a list of
  bytes (\<^typ>\<open>char list\<close>), ordered bytewise as Go orders strings.
\<close>

named_theorems ttl_intros \<open>preservation of the absence of expiry times\<close>
named_theorems wf_intros \<open>preservation of the well-formedness invariants\<close>

type_synonym int64 = "64 word"

subsection \<open>Signed 64-bit arithmetic\<close>

text \<open>
  \<open>wrap64\<close> is the reduction of a mathematical integer into the range of \<open>int64\<close>
  that Go's \<open>+\<close>, \<open>-\<close> and \<open>*\<close> perform silently.
\<close>

definition wrap64 :: "int \<Rightarrow> int" where
  "wrap64 x = (x + 2 ^ 63) mod 2 ^ 64 - 2 ^ 63"

definition in_int64 :: "int \<Rightarrow> bool" where
  "in_int64 x \<longleftrightarrow> - (2 ^ 63) \<le> x \<and> x < 2 ^ 63"

lemma signed_take_bit_wrap64: "signed_take_bit 63 x = wrap64 x"
  by (simp add: signed_take_bit_eq_take_bit_shift wrap64_def take_bit_eq_mod)

lemma sint_add64: "sint (a + b :: int64) = wrap64 (sint a + sint b)"
  by (simp add: sint_word_ariths signed_take_bit_wrap64)

lemma sint_mult64: "sint (a * b :: int64) = wrap64 (sint a * sint b)"
  by (simp add: sint_word_ariths signed_take_bit_wrap64)

lemma sint_uminus64: "sint (- a :: int64) = wrap64 (- sint a)"
  by (simp add: sint_word_ariths signed_take_bit_wrap64)

lemma sint_of_int64: "sint (word_of_int x :: int64) = wrap64 x"
  by (simp add: sint_sbintrunc' signed_take_bit_wrap64)

lemma wrap64_id [simp]: "in_int64 x \<Longrightarrow> wrap64 x = x"
  by (simp add: wrap64_def in_int64_def)

lemma in_int64_sint [simp]: "in_int64 (sint (a :: int64))"
  using sint_greater_eq [of a] sint_less [of a] by (simp add: in_int64_def)

lemma word_of_int_sint64 [simp]: "word_of_int (sint (a :: int64)) = a"
  by simp

lemma in_int64_of_nat: "n < 2 ^ 63 \<Longrightarrow> in_int64 (int n)"
  by (simp add: in_int64_def)

lemma sint_of_nat64: "n < 2 ^ 63 \<Longrightarrow> sint (of_nat n :: int64) = int n"
  using sint_of_int64 [of "int n"] by (simp add: in_int64_of_nat)

text \<open>Go's idiom for detecting the overflow of a signed addition is exact.\<close>

lemma add_overflow_iff:
  fixes a b :: int64
  shows "in_int64 (sint a + sint b) \<longleftrightarrow>
    \<not> ((sint b > 0 \<and> sint (a + b) < sint a) \<or> (sint b < 0 \<and> sint (a + b) > sint a))"
proof -
  have "in_int64 (sint a)" "in_int64 (sint b)" by simp_all
  moreover have "in_int64 (sint (a + b))" by simp
  moreover have "wrap64 x = (if in_int64 x then x else if x < 0 then x + 2 ^ 64 else x - 2 ^ 64)"
    if "- (2 ^ 64) \<le> x" "x < 2 ^ 64" for x
    using that mod_pos_pos_trivial [of "x + 2 ^ 63 + 2 ^ 64" "2 ^ 64"]
      mod_pos_pos_trivial [of "x + 2 ^ 63 - 2 ^ 64" "2 ^ 64"] minus_mod_self2 [of "x + 2 ^ 63" "2 ^ 64"]
      mod_add_self2 [of "x + 2 ^ 63" "2 ^ 64"]
    by (auto simp: wrap64_def in_int64_def)
  ultimately show ?thesis
    unfolding sint_add64 by (auto simp: in_int64_def)
qed

subsection \<open>The order of a range loop over a map\<close>

text \<open>
  Go leaves the iteration order of \<open>for k := range m\<close> open and randomises it. The
  model takes it from a schedule, a list of numbers: each number picks the next element
  among those left. Every schedule yields a permutation, and every permutation is
  yielded by some schedule, so a theorem for all schedules covers exactly the orders a
  run can show.
\<close>

fun range_order :: "nat list \<Rightarrow> 'a list \<Rightarrow> 'a list" where
  "range_order is [] = []"
| "range_order [] (x # xs) = x # xs"
| "range_order (i # is) (x # xs) =
     (let ys = x # xs; j = i mod length ys
      in ys ! j # range_order is (take j ys @ drop (Suc j) ys))"

definition range_keys :: "nat list \<Rightarrow> ('k::linorder, 'v) fmap \<Rightarrow> 'k list" where
  "range_keys is m = range_order is (sorted_list_of_fset (fmdom m))"

definition range_fset :: "nat list \<Rightarrow> 'k::linorder fset \<Rightarrow> 'k list" where
  "range_fset is A = range_order is (sorted_list_of_fset A)"

lemma mset_take_drop_nth:
  "j < length ys \<Longrightarrow> add_mset (ys ! j) (mset (take j ys @ drop (Suc j) ys)) = mset ys"
  by (metis id_take_nth_drop mset.simps(2) mset_append union_mset_add_mset_right)

lemma mset_range_order [simp]: "mset (range_order is xs) = mset xs"
proof (induction "is" xs rule: range_order.induct)
  case (3 i "is" x xs)
  let ?ys = "x # xs" and ?j = "i mod length (x # xs)"
  have "?j < length ?ys"
    by (rule mod_less_divisor) simp
  with 3 mset_take_drop_nth [of ?j ?ys] show ?case
    by (simp only: range_order.simps Let_def mset.simps(2))
qed simp_all

lemma set_range_order [simp]: "set (range_order is xs) = set xs"
  by (metis mset_range_order set_mset_mset)

lemma length_range_order [simp]: "length (range_order is xs) = length xs"
  by (metis mset_range_order size_mset)

lemma distinct_range_order [simp]: "distinct (range_order is xs) = distinct xs"
  by (metis mset_range_order mset_eq_imp_distinct_iff)

lemma range_order_complete: "mset ys = mset xs \<Longrightarrow> \<exists>is. range_order is xs = ys"
proof (induction ys arbitrary: xs)
  case Nil
  then show ?case by (intro exI [of _ "[]"]) simp
next
  case (Cons y ys)
  then have "y \<in> set xs"
    by (metis list.set_intros(1) set_mset_mset)
  then obtain j where j: "j < length xs" "xs ! j = y"
    by (auto simp: in_set_conv_nth)
  then obtain x xs' where xs: "xs = x # xs'"
    by (cases xs) auto
  from Cons.prems j have "mset ys = mset (take j xs @ drop (Suc j) xs)"
    by (metis add_mset_remove_trivial mset.simps(2) mset_take_drop_nth)
  then obtain "is" where "range_order is (take j xs @ drop (Suc j) xs) = ys"
    using Cons.IH by blast
  with j xs show ?case
    by (intro exI [of _ "j # is"]) (simp add: Let_def)
qed

lemma distinct_sorted_list_of_fset [simp]: "distinct (sorted_list_of_fset A)"
  by (simp add: sorted_list_of_fset.rep_eq)

lemma length_sorted_list_of_fset [simp]: "length (sorted_list_of_fset A) = fcard A"
  by (simp add: sorted_list_of_fset.rep_eq fcard.rep_eq)

lemma set_range_keys [simp]: "set (range_keys is m) = fset (fmdom m)"
  by (simp add: range_keys_def)

lemma distinct_range_keys [simp]: "distinct (range_keys is m)"
  by (simp add: range_keys_def)

lemma length_range_keys [simp]: "length (range_keys is m) = fcard (fmdom m)"
  by (simp add: range_keys_def)

lemma set_range_fset [simp]: "set (range_fset is A) = fset A"
  by (simp add: range_fset_def)

lemma distinct_range_fset [simp]: "distinct (range_fset is A)"
  by (simp add: range_fset_def)

lemma length_range_fset [simp]: "length (range_fset is A) = fcard A"
  by (simp add: range_fset_def)

lemma mem_fmdom_iff: "k |\<in>| fmdom m \<longleftrightarrow> fmlookup m k \<noteq> None"
  by (auto simp: fmlookup_dom_iff)

subsection \<open>Counting loops over a map\<close>

text \<open>
  Two loop bodies that hashes and sorted sets share: assigning the entries of one map
  into another while counting the keys that are new, and deleting keys while counting
  those that were present.
\<close>

definition assign_entry :: "('k, 'v) fmap \<Rightarrow> 'k \<Rightarrow> nat \<times> ('k, 'v) fmap \<Rightarrow> nat \<times> ('k, 'v) fmap" where
  "assign_entry new k st =
     (case (fmlookup new k, st) of
        (None, _) \<Rightarrow> st
      | (Some v, (n, m)) \<Rightarrow> (if fmlookup m k = None then Suc n else n, fmupd k v m))"

definition remove_entry :: "'k \<Rightarrow> nat \<times> ('k, 'v) fmap \<Rightarrow> nat \<times> ('k, 'v) fmap" where
  "remove_entry k st =
     (case st of (n, m) \<Rightarrow> if fmlookup m k = None then (n, m) else (Suc n, fmdrop k m))"

lemma fold_assign_entry:
  assumes "distinct ks" "set ks \<subseteq> fset (fmdom new)"
  shows "fold (assign_entry new) ks (n, m) =
    (n + card {k \<in> set ks. fmlookup m k = None}, m ++\<^sub>f fmrestrict_set (set ks) new)"
  using assms
proof (induction ks arbitrary: n m)
  case (Cons k ks)
  then obtain v where v: "fmlookup new k = Some v" by (auto simp: mem_fmdom_iff)
  have eq: "{j \<in> set ks. fmlookup (fmupd k v m) j = None} = {j \<in> set ks. fmlookup m j = None}"
    using Cons.prems(1) by auto
  have ins: "{j \<in> set (k # ks). fmlookup m j = None} =
      (if fmlookup m k = None then insert k {j \<in> set ks. fmlookup m j = None}
       else {j \<in> set ks. fmlookup m j = None})"
    by auto
  have "fmupd k v m ++\<^sub>f fmrestrict_set (set ks) new = m ++\<^sub>f fmrestrict_set (set (k # ks)) new"
    using v Cons.prems(1) by (intro fmap_ext) (auto simp: mem_fmdom_iff)
  with Cons v eq ins show ?case
    by (simp add: assign_entry_def)
qed simp

lemma fold_assign_range:
  "fold (assign_entry new) (range_keys is new) (0, m) =
    (card {k. k |\<in>| fmdom new \<and> fmlookup m k = None}, m ++\<^sub>f new)"
proof -
  have "fmrestrict_set (fset (fmdom new)) new = new"
    by (intro fmap_ext) (auto simp: mem_fmdom_iff)
  then show ?thesis by (simp add: fold_assign_entry)
qed

lemma fold_remove_entry:
  "fold remove_entry ks (n, m) =
    (n + card {k \<in> set ks. fmlookup m k \<noteq> None}, fmdrop_set (set ks) m)"
proof (induction ks arbitrary: n m)
  case (Cons k ks)
  show ?case
  proof (cases "fmlookup m k")
    case None
    then have "{j \<in> set (k # ks). fmlookup m j \<noteq> None} = {j \<in> set ks. fmlookup m j \<noteq> None}"
      and "fmdrop_set (set (k # ks)) m = fmdrop_set (set ks) m"
      by (auto intro!: fmap_ext)
    with None Cons show ?thesis by (simp add: remove_entry_def)
  next
    case (Some v)
    have "{j \<in> set (k # ks). fmlookup m j \<noteq> None} =
        insert k {j \<in> set ks. fmlookup (fmdrop k m) j \<noteq> None}"
      using Some by auto
    moreover have "k \<notin> {j \<in> set ks. fmlookup (fmdrop k m) j \<noteq> None}" by simp
    moreover have "fmdrop_set (set (k # ks)) m = fmdrop_set (set ks) (fmdrop k m)"
      by (intro fmap_ext) auto
    ultimately show ?thesis using Some Cons by (simp add: remove_entry_def)
  qed
qed simp

subsection \<open>Empty maps\<close>

lemma fmdom_empty_iff: "fmdom m = {||} \<longleftrightarrow> m = fmempty"
  by (metis fmdom_empty fmrestrict_fset_dom fmrestrict_fset_null)

lemma range_keys_empty_iff: "range_keys is m = [] \<longleftrightarrow> m = fmempty"
  by (metis bot_fset.rep_eq fmdom_empty fmdom_empty_iff fset_inject set_empty set_range_keys)

lemma fmadd_eq_empty [simp]: "m ++\<^sub>f n = fmempty \<longleftrightarrow> m = fmempty \<and> n = fmempty"
  by (metis fmadd_empty(1) fmdom_add fmdom_empty fmdom_empty_iff funion_fempty_left sup_eq_bot_iff)

lemma fmupd_neq_empty [simp]: "fmupd k v m \<noteq> fmempty"
  by (metis fmempty_lookup fmupd_lookup option.distinct(1))

end
