(* ===== verification/GoStd.thy ===== *)
theory GoStd
  imports Prelude
begin

section \<open>The parts of the Go library the server uses\<close>

text \<open>
  \<^item> \<open>strconv\<close>: \<open>FormatInt\<close>, \<open>Itoa\<close> and \<open>ParseInt\<close> in base 10, 64 bits (\<open>Atoi\<close>
    is \<open>ParseInt\<close> on the 64-bit platforms the server is built for);
  \<^item> \<open>strings\<close>: \<open>ToUpper\<close> and \<open>ToLower\<close>;
  \<^item> \<open>time\<close>: instants as nanoseconds since the zero time, durations as \<open>int64\<close>;
  \<^item> \<open>float64\<close>: the bits of a double with the comparisons \<open><\<close> and \<open>!=\<close>;
  \<^item> \<open>sort.Slice\<close>: insertion sort by a less-function (which is what the library runs
    on slices of up to 12 elements); on a strict total order the sorted list is unique,
    so the choice of the algorithm cannot be seen.

  What is not defined here is a field of the record \<open>Runtime\<close> and so an argument of
  the model: decimal parsing and printing of floats, the case tables of Unicode,
  \<open>path.Match\<close> and the strings that describe the platform. The record \<open>Env\<close> adds
  what may differ at every request: the clock readings and the order of range loops.
\<close>

type_synonym Time = int
type_synonym Duration = int64
type_synonym float64 = "64 word"

record Runtime =
  parseFloat :: "string \<Rightarrow> float64 option"
  formatFloat :: "float64 \<Rightarrow> string"
  unicodeUpper :: "string \<Rightarrow> string"
  unicodeLower :: "string \<Rightarrow> string"
  pathMatch :: "string \<Rightarrow> string \<Rightarrow> bool"
  goVersion :: string
  goos :: string
  goarch :: string

text \<open>
  \<open>clk i\<close> is the result of the call's \<open>i\<close>-th \<open>time.Now()\<close>; \<open>iter\<close> is the
  schedule of its range loop over a map.
\<close>

record Env = Runtime +
  clk :: "nat \<Rightarrow> Time"
  iter :: "nat list"

subsection \<open>Definitions: strconv\<close>

definition digit_char :: "nat \<Rightarrow> char" where
  "digit_char d = char_of (48 + d)"

fun nat_digits :: "nat \<Rightarrow> string" where
  "nat_digits n =
     (if n < 10 then [digit_char n] else nat_digits (n div 10) @ [digit_char (n mod 10)])"

declare nat_digits.simps [simp del]

definition Itoa :: "nat \<Rightarrow> string" where
  "Itoa n = nat_digits n"

definition FormatInt :: "int64 \<Rightarrow> string" where
  "FormatInt w =
     (let x = sint w
      in if x < 0 then CHR ''-'' # nat_digits (nat (- x)) else nat_digits (nat x))"

definition is_digit :: "char \<Rightarrow> bool" where
  "is_digit c \<longleftrightarrow> 48 \<le> (of_char c :: nat) \<and> (of_char c :: nat) \<le> 57"

fun parse_digits :: "nat \<Rightarrow> string \<Rightarrow> nat option" where
  "parse_digits n [] = Some n"
| "parse_digits n (c # cs) =
     (if is_digit c then parse_digits (10 * n + (of_char c - 48)) cs else None)"

text \<open>\<open>None\<close> is a non-nil error (a syntax error or a value out of range).\<close>

definition ParseInt :: "string \<Rightarrow> int64 option" where
  "ParseInt s =
     (let neg = (s \<noteq> [] \<and> hd s = CHR ''-'');
          ds = (if s \<noteq> [] \<and> (hd s = CHR ''-'' \<or> hd s = CHR ''+'') then tl s else s)
      in if ds = [] then None
         else case parse_digits 0 ds of
             None \<Rightarrow> None
           | Some n \<Rightarrow>
               if neg then (if n \<le> 2 ^ 63 then Some (word_of_int (- int n)) else None)
               else (if n < 2 ^ 63 then Some (word_of_int (int n)) else None))"

subsection \<open>Definitions: strings\<close>

definition ascii :: "string \<Rightarrow> bool" where
  "ascii s \<longleftrightarrow> list_all (\<lambda>c. (of_char c :: nat) < 128) s"

definition upper_char :: "char \<Rightarrow> char" where
  "upper_char c = (if 97 \<le> (of_char c :: nat) \<and> (of_char c :: nat) \<le> 122
                   then char_of ((of_char c :: nat) - 32) else c)"

definition lower_char :: "char \<Rightarrow> char" where
  "lower_char c = (if 65 \<le> (of_char c :: nat) \<and> (of_char c :: nat) \<le> 90
                   then char_of ((of_char c :: nat) + 32) else c)"

definition ToUpper :: "'a Runtime_scheme \<Rightarrow> string \<Rightarrow> string" where
  "ToUpper rt s = (if ascii s then map upper_char s else unicodeUpper rt s)"

definition ToLower :: "'a Runtime_scheme \<Rightarrow> string \<Rightarrow> string" where
  "ToLower rt s = (if ascii s then map lower_char s else unicodeLower rt s)"

subsection \<open>Definitions: time\<close>

definition time_Second :: Duration where "time_Second = 1000000000"
definition time_Millisecond :: Duration where "time_Millisecond = 1000000"

definition IsZero :: "Time \<Rightarrow> bool" where
  "IsZero t \<longleftrightarrow> t = 0"

definition timeAdd :: "Time \<Rightarrow> Duration \<Rightarrow> Time" where
  "timeAdd t d = t + sint d"

text \<open>\<open>t.Sub(u)\<close> saturates at the ends of the range of \<open>Duration\<close>.\<close>

definition timeSub :: "Time \<Rightarrow> Time \<Rightarrow> Duration" where
  "timeSub t u = word_of_int (max (- (2 ^ 63)) (min (2 ^ 63 - 1) (t - u)))"

text \<open>Go's signed division truncates towards zero.\<close>

definition quot64 :: "int64 \<Rightarrow> int64 \<Rightarrow> int64" where
  "quot64 a b = word_of_int (sgn (sint a) * sgn (sint b) * (\<bar>sint a\<bar> div \<bar>sint b\<bar>))"

subsection \<open>Definitions: float64\<close>

definition f64_nan :: "float64 \<Rightarrow> bool" where
  "f64_nan b \<longleftrightarrow> unat b mod 2 ^ 63 > 2047 * 2 ^ 52"

definition f64_key :: "float64 \<Rightarrow> int" where
  "f64_key b = (if unat b < 2 ^ 63 then int (unat b) else - int (unat b - 2 ^ 63))"

definition f64_less :: "float64 \<Rightarrow> float64 \<Rightarrow> bool" where
  "f64_less a b \<longleftrightarrow> \<not> f64_nan a \<and> \<not> f64_nan b \<and> f64_key a < f64_key b"

definition f64_eq :: "float64 \<Rightarrow> float64 \<Rightarrow> bool" where
  "f64_eq a b \<longleftrightarrow> \<not> f64_nan a \<and> \<not> f64_nan b \<and> f64_key a = f64_key b"

subsection \<open>Definitions: sort.Slice\<close>

text \<open>
  The sorted prefix is kept in reverse: \<open>sift\<close> moves the new element left past every
  element it is less than.
\<close>

fun sift :: "('a \<Rightarrow> 'a \<Rightarrow> bool) \<Rightarrow> 'a \<Rightarrow> 'a list \<Rightarrow> 'a list" where
  "sift lt x [] = [x]"
| "sift lt x (y # ys) = (if lt x y then y # sift lt x ys else x # y # ys)"

definition sort_Slice :: "('a \<Rightarrow> 'a \<Rightarrow> bool) \<Rightarrow> 'a list \<Rightarrow> 'a list" where
  "sort_Slice lt xs = rev (fold (sift lt) xs [])"

subsection \<open>Integers print and parse back\<close>

lemma of_char_digit [simp]: "d < 10 \<Longrightarrow> (of_char (digit_char d) :: nat) = 48 + d"
  by (simp add: digit_char_def)

lemma is_digit_digit_char [simp]: "d < 10 \<Longrightarrow> is_digit (digit_char d)"
  by (simp add: is_digit_def)

lemma parse_digits_append:
  "parse_digits n (xs @ ys) = Option.bind (parse_digits n xs) (\<lambda>m. parse_digits m ys)"
  by (induction n xs rule: parse_digits.induct) simp_all

lemma parse_nat_digits_0: "parse_digits 0 (nat_digits n) = Some n"
proof (induction n rule: nat_digits.induct)
  case (1 n)
  show ?case
  proof (cases "n < 10")
    case True
    then show ?thesis by (subst nat_digits.simps) simp
  next
    case False
    with 1 show ?thesis
      by (subst nat_digits.simps) (simp add: parse_digits_append)
  qed
qed

lemma nat_digits_all: "list_all is_digit (nat_digits n)"
proof (induction n rule: nat_digits.induct)
  case (1 n)
  then show ?case by (subst nat_digits.simps) auto
qed

lemma nat_digits_nonempty [simp]: "nat_digits n \<noteq> []"
  by (subst nat_digits.simps) simp

lemma nat_digits_hd: "is_digit (hd (nat_digits n))"
  using nat_digits_all [of n] by (cases "nat_digits n") auto

lemma not_digit_sign [simp]:
  "\<not> is_digit (CHR ''-'')" "\<not> is_digit (CHR ''+'')" "\<not> is_digit (CHR 0x0A)" "\<not> is_digit (CHR 0x0D)"
  by (simp_all add: is_digit_def)

lemma ParseInt_nat_digits: "n < 2 ^ 63 \<Longrightarrow> ParseInt (nat_digits n) = Some (word_of_int (int n))"
proof -
  have "hd (nat_digits n) \<noteq> CHR ''-''" "hd (nat_digits n) \<noteq> CHR ''+''"
    using nat_digits_hd [of n] by auto
  then show "n < 2 ^ 63 \<Longrightarrow> ParseInt (nat_digits n) = Some (word_of_int (int n))"
    by (simp add: ParseInt_def parse_nat_digits_0)
qed

lemma ParseInt_FormatInt [simp]: "ParseInt (FormatInt w) = Some w"
proof (cases "sint w < 0")
  case True
  then have "nat (- sint w) \<le> 2 ^ 63"
    using in_int64_sint [of w] by (simp add: in_int64_def)
  with True show ?thesis
    by (simp add: ParseInt_def FormatInt_def parse_nat_digits_0)
next
  case False
  then have "nat (sint w) < 2 ^ 63"
    using in_int64_sint [of w] by (simp add: in_int64_def)
  with False show ?thesis
    by (simp add: FormatInt_def ParseInt_nat_digits)
qed

lemma ParseInt_Itoa: "n < 2 ^ 63 \<Longrightarrow> ParseInt (Itoa n) = Some (of_nat n)"
  by (simp add: Itoa_def ParseInt_nat_digits)

lemma length_nat_digits: "n < 10 ^ Suc k \<Longrightarrow> length (nat_digits n) \<le> Suc k"
proof (induction k arbitrary: n)
  case 0
  then show ?case by (simp add: nat_digits.simps)
next
  case (Suc k)
  then have "n div 10 < 10 ^ Suc k" by (simp add: less_mult_imp_div_less)
  with Suc.IH show ?case by (subst nat_digits.simps) simp
qed

lemma FormatInt_short: "length (FormatInt w) \<le> 20"
proof -
  have "nat \<bar>sint w\<bar> < 10 ^ Suc 18" using in_int64_sint [of w] by (simp add: in_int64_def nat_less_iff abs_less_iff)
  from length_nat_digits [OF this] show ?thesis by (auto simp: FormatInt_def Let_def abs_if split: if_splits)
qed

lemma FormatInt_no_newline: "CHR 0x0A \<notin> set (FormatInt w)"
  using nat_digits_all [of "nat (sint w)"] nat_digits_all [of "nat (- sint w)"]
  by (auto simp: FormatInt_def Let_def list_all_iff)

lemma Itoa_no_newline: "CHR 0x0A \<notin> set (Itoa n)"
  using nat_digits_all [of n] by (auto simp: Itoa_def list_all_iff)

subsection \<open>Durations\<close>

lemma quot64_nonneg:
  assumes "0 \<le> x" "x < 2 ^ 63" "0 < y" "y < 2 ^ 63"
  shows "sint (quot64 (word_of_int x) (word_of_int y)) = x div y"
proof -
  have b: "in_int64 x" "in_int64 y" using assms by (simp_all add: in_int64_def)
  have "0 \<le> x div y" using assms by (simp add: pos_imp_zdiv_nonneg_iff)
  moreover have "x div y \<le> x div 1" using assms by (intro zdiv_mono2) auto
  ultimately have "in_int64 (x div y)" using assms(2) by (simp add: in_int64_def)
  moreover have "sgn x * sgn y * (\<bar>x\<bar> div \<bar>y\<bar>) = x div y" using assms by (simp add: sgn_if)
  ultimately show ?thesis using b by (simp add: quot64_def sint_of_int64)
qed

lemma time_units:
  "time_Second = word_of_int 1000000000" "time_Millisecond = word_of_int 1000000"
  by (simp_all add: time_Second_def time_Millisecond_def)

subsection \<open>Case mapping\<close>

lemma upper_char_ascii: "(of_char c :: nat) < 128 \<Longrightarrow> (of_char (upper_char c) :: nat) < 128"
  by (auto simp: upper_char_def)

lemma upper_char_idem [simp]: "upper_char (upper_char c) = upper_char c"
  by (auto simp: upper_char_def)

lemma ascii_upper [simp]: "ascii s \<Longrightarrow> ascii (map upper_char s)"
  by (auto simp: ascii_def list_all_iff upper_char_ascii)

lemma ToUpper_idem_ascii: "ascii s \<Longrightarrow> ToUpper rt (ToUpper rt s) = ToUpper rt s"
  by (simp add: ToUpper_def)

subsection \<open>Sorting by a strict total order\<close>

lemma mset_sift [simp]: "mset (sift lt x ys) = add_mset x (mset ys)"
  by (induction ys) simp_all

lemma mset_fold_sift: "mset (fold (sift lt) xs ys) = mset xs + mset ys"
  by (induction xs arbitrary: ys) simp_all

lemma mset_sort_Slice [simp]: "mset (sort_Slice lt xs) = mset xs"
  by (simp add: sort_Slice_def mset_fold_sift)

lemma set_sort_Slice [simp]: "set (sort_Slice lt xs) = set xs"
  by (metis mset_sort_Slice set_mset_mset)

lemma length_sort_Slice [simp]: "length (sort_Slice lt xs) = length xs"
  by (metis mset_sort_Slice size_mset)

lemma distinct_sort_Slice [simp]: "distinct (sort_Slice lt xs) = distinct xs"
  by (metis mset_sort_Slice mset_eq_imp_distinct_iff)

locale slice_order =
  fixes lt :: "'a \<Rightarrow> 'a \<Rightarrow> bool"
    and A :: "'a set"
  assumes irrefl: "x \<in> A \<Longrightarrow> \<not> lt x x"
    and trans: "x \<in> A \<Longrightarrow> y \<in> A \<Longrightarrow> z \<in> A \<Longrightarrow> lt x y \<Longrightarrow> lt y z \<Longrightarrow> lt x z"
    and total: "x \<in> A \<Longrightarrow> y \<in> A \<Longrightarrow> x \<noteq> y \<Longrightarrow> lt x y \<or> lt y x"
begin

lemma set_sift: "set (sift lt x ys) = insert x (set ys)"
  by (metis mset_sift set_mset_add_mset_insert set_mset_mset)

lemma sift_sorted:
  assumes "sorted_wrt (\<lambda>a b. lt b a) ys" "x \<in> A" "set ys \<subseteq> A" "x \<notin> set ys"
  shows "sorted_wrt (\<lambda>a b. lt b a) (sift lt x ys)"
  using assms
proof (induction ys)
  case (Cons y ys)
  show ?case
  proof (cases "lt x y")
    case True
    with Cons show ?thesis by (simp add: set_sift)
  next
    case False
    with Cons.prems total [of x y] have yx: "lt y x" by auto
    have "lt z x" if "z \<in> set ys" for z
      using that Cons.prems yx trans [of z y x] by auto
    with False yx Cons.prems show ?thesis by simp
  qed
qed simp

lemma fold_sift_sorted:
  assumes "sorted_wrt (\<lambda>a b. lt b a) ys" "set xs \<subseteq> A" "set ys \<subseteq> A" "distinct (xs @ ys)"
  shows "sorted_wrt (\<lambda>a b. lt b a) (fold (sift lt) xs ys)"
  using assms
proof (induction xs arbitrary: ys)
  case (Cons x xs)
  then have "sorted_wrt (\<lambda>a b. lt b a) (sift lt x ys)"
    by (intro sift_sorted) auto
  moreover have "distinct (sift lt x ys)"
    using Cons.prems(4) by (metis append_Cons distinct.simps(2) distinct_append mset_eq_imp_distinct_iff
        mset_sift mset.simps(2) Un_iff set_append)
  ultimately show ?case
    using Cons by (simp add: set_sift)
qed simp

lemma sort_Slice_sorted:
  "set xs \<subseteq> A \<Longrightarrow> distinct xs \<Longrightarrow> sorted_wrt lt (sort_Slice lt xs)"
  using fold_sift_sorted [of "[]" xs] by (simp add: sort_Slice_def sorted_wrt_rev)

lemma sorted_unique:
  assumes "sorted_wrt lt xs" "sorted_wrt lt ys" "mset xs = mset ys" "set xs \<subseteq> A"
  shows "xs = ys"
  using assms
proof (induction xs arbitrary: ys)
  case (Cons x xs)
  then obtain y ys' where ys: "ys = y # ys'"
    by (metis list.exhaust mset_zero_iff neq_Nil_conv)
  have sets: "insert x (set xs) = insert y (set ys')"
    using Cons.prems(3) ys by (metis list.simps(15) set_mset_mset)
  have "x = y"
  proof (rule ccontr)
    assume ne: "x \<noteq> y"
    then have "lt x y" "lt y x"
      using sets Cons.prems(1,2) ys by auto
    then show False
      using trans irrefl Cons.prems(4) sets by (metis insertCI list.simps(15) subsetD)
  qed
  with Cons ys show ?case by simp
qed simp

text \<open>Whatever order the elements come in, and whichever way they are sorted, the result is one list.\<close>

lemma sort_Slice_canonical:
  assumes "set xs \<subseteq> A" "distinct xs" "mset ys = mset xs" "sorted_wrt lt ys"
  shows "sort_Slice lt xs = ys"
  using assms by (intro sorted_unique) (auto simp: sort_Slice_sorted)

lemma sort_Slice_perm:
  assumes "set xs \<subseteq> A" "distinct xs" "mset ys = mset xs"
  shows "sort_Slice lt ys = sort_Slice lt xs"
  using assms
  by (intro sort_Slice_canonical sort_Slice_sorted) (auto dest: mset_eq_setD mset_eq_imp_distinct_iff)

end

end
