(* ===== verification/Resp.thy ===== *)
theory Resp
  imports GoStd
begin

section \<open>The RESP2 codec (internal/resp)\<close>

text \<open>
  \<open>value.go\<close>: the struct \<open>Value\<close>, its constructors and \<open>Marshal\<close>; \<open>reader.go\<close>:
  \<open>Reader.Read\<close> and its helpers; \<open>writer.go\<close>: \<open>Writer.Write\<close>. A reader is the list
  of bytes still to come on its stream; a read returns an error or the frame and the
  bytes after it. The reader recurses into arrays, so it runs on fuel; \<open>Read\<close> takes as
  much fuel as there are bytes, and the theorems at the end of the theory show that this
  always suffices.
\<close>

subsection \<open>Definitions: value.go\<close>

type_synonym Type = char

definition TypeSimpleString :: Type where [simp]: "TypeSimpleString = CHR ''+''"
definition TypeError :: Type where [simp]: "TypeError = CHR ''-''"
definition TypeInteger :: Type where [simp]: "TypeInteger = CHR '':''"
definition TypeBulk :: Type where [simp]: "TypeBulk = CHR ''$''"
definition TypeArray :: Type where [simp]: "TypeArray = CHR ''*''"

datatype Value = Value
  (vType: Type) (vStr: string) (vNum: int64) (vElems: "Value list") (vNull: bool) (vMulti: bool)

definition MultiFrame :: "Value list \<Rightarrow> Value" where
  "MultiFrame vs = Value TypeArray [] 0 vs False True"

definition Str :: "string \<Rightarrow> Value" where
  "Str s = Value TypeSimpleString s 0 [] False False"

definition OK :: Value where
  "OK = Str ''OK''"

text \<open>The argument is the text after formatting.\<close>

definition Errorf :: "string \<Rightarrow> Value" where
  "Errorf s = Value TypeError s 0 [] False False"

definition IntV :: "int64 \<Rightarrow> Value" where
  "IntV n = Value TypeInteger [] n [] False False"

definition Bulk :: "string \<Rightarrow> Value" where
  "Bulk s = Value TypeBulk s 0 [] False False"

definition NullBulk :: Value where
  "NullBulk = Value TypeBulk [] 0 [] True False"

definition Array :: "Value list \<Rightarrow> Value" where
  "Array vs = Value TypeArray [] 0 vs False False"

definition NullArray :: Value where
  "NullArray = Value TypeArray [] 0 [] True False"

definition BulkStrings :: "string list \<Rightarrow> Value" where
  "BulkStrings ss = Array (map Bulk ss)"

lemmas value_defs = MultiFrame_def Str_def OK_def Errorf_def IntV_def Bulk_def NullBulk_def
  Array_def NullArray_def BulkStrings_def

definition crlf :: string where
  "crlf = [CHR 0x0D, CHR 0x0A]"

definition marshalLine :: "char \<Rightarrow> string \<Rightarrow> string" where
  "marshalLine prefix s = prefix # s @ crlf"

definition marshalBulk :: "string \<Rightarrow> string" where
  "marshalBulk s = CHR ''$'' # Itoa (length s) @ crlf @ s @ crlf"

definition marshalArray :: "(Value \<Rightarrow> string) \<Rightarrow> Value list \<Rightarrow> string" where
  "marshalArray enc elems = CHR ''*'' # Itoa (length elems) @ crlf @ concat (map enc elems)"

lemma marshalArray_cong [fundef_cong]:
  "xs = ys \<Longrightarrow> (\<And>x. x \<in> set ys \<Longrightarrow> f x = g x) \<Longrightarrow> marshalArray f xs = marshalArray g ys"
  unfolding marshalArray_def by (metis map_cong)

fun Marshal :: "Value \<Rightarrow> string" where
  "Marshal (Value t s n es null multi) =
     (if t = TypeSimpleString then marshalLine (CHR ''+'') s
      else if t = TypeError then marshalLine (CHR ''-'') s
      else if t = TypeInteger then marshalLine (CHR '':'') (FormatInt n)
      else if t = TypeBulk then (if null then ''$-1'' @ crlf else marshalBulk s)
      else if t = TypeArray then (if null then ''*-1'' @ crlf else marshalArray Marshal es)
      else [])"

subsection \<open>Definitions: reader.go\<close>

text \<open>
  \<open>MakeslicePanic\<close> is the run-time panic of \<open>make\<close> with a length above what the
  allocator can address (\<open>maxAlloc\<close>, 48 address bits on the 64-bit platforms);
  \<open>OutOfFuel\<close> is an artefact of the model that no read from \<open>Read\<close> returns.
\<close>

datatype read_error =
    EOF | UnexpectedEOF | MalformedLine string | ParseError | UnknownType char
  | MakeslicePanic | OutOfFuel

type_synonym 'a read_result = "read_error + 'a \<times> string"

definition maxAlloc :: nat where
  "maxAlloc = 2 ^ 48"

text \<open>The size of the struct \<open>Value\<close> in bytes.\<close>

definition sizeofValue :: nat where
  "sizeofValue = 64"

text \<open>\<open>bufio.Reader.ReadString('\n')\<close>: the bytes up to and including the first newline.\<close>

fun ReadString :: "string \<Rightarrow> (string \<times> string) option" where
  "ReadString [] = None"
| "ReadString (c # cs) =
     (if c = CHR 0x0A then Some ([c], cs)
      else case ReadString cs of None \<Rightarrow> None | Some (l, r) \<Rightarrow> Some (c # l, r))"

definition readLine :: "string \<Rightarrow> string read_result" where
  "readLine s =
     (case ReadString s of
        None \<Rightarrow> Inl EOF
      | Some (line, rest) \<Rightarrow>
          (let n = length line
           in if n < 2 \<or> line ! (n - 2) \<noteq> CHR 0x0D then Inl (MalformedLine line)
              else Inr (take (n - 2) line, rest)))"

definition readInteger :: "string \<Rightarrow> int64 read_result" where
  "readInteger s =
     (case readLine s of
        Inl e \<Rightarrow> Inl e
      | Inr (line, rest) \<Rightarrow>
          (case ParseInt line of None \<Rightarrow> Inl ParseError | Some n \<Rightarrow> Inr (n, rest)))"

text \<open>\<open>io.ReadFull\<close> into a buffer of \<open>n\<close> bytes.\<close>

definition ReadFull :: "nat \<Rightarrow> string \<Rightarrow> string read_result" where
  "ReadFull n s =
     (if n \<le> length s then Inr (take n s, drop n s)
      else if s = [] then Inl EOF else Inl UnexpectedEOF)"

text \<open>The loop of \<open>readArray\<close>, over the reader \<open>rd\<close> it calls for each element.\<close>

fun readElems :: "(string \<Rightarrow> Value read_result) \<Rightarrow> nat \<Rightarrow> string \<Rightarrow> Value list read_result" where
  "readElems rd 0 s = Inr ([], s)"
| "readElems rd (Suc n) s =
     (case rd s of
        Inl e \<Rightarrow> Inl e
      | Inr (v, rest) \<Rightarrow>
          (case readElems rd n rest of
             Inl e \<Rightarrow> Inl e
           | Inr (vs, rest') \<Rightarrow> Inr (v # vs, rest')))"

definition readArray :: "(string \<Rightarrow> Value read_result) \<Rightarrow> string \<Rightarrow> Value read_result" where
  "readArray rd s =
     (case readInteger s of
        Inl e \<Rightarrow> Inl e
      | Inr (n, rest) \<Rightarrow>
          (if sint n < 0 then Inr (NullArray, rest)
           else if sizeofValue * nat (sint n) > maxAlloc then Inl MakeslicePanic
           else case readElems rd (nat (sint n)) rest of
               Inl e \<Rightarrow> Inl e
             | Inr (vs, rest') \<Rightarrow> Inr (Array vs, rest')))"

definition readBulk :: "string \<Rightarrow> Value read_result" where
  "readBulk s =
     (case readInteger s of
        Inl e \<Rightarrow> Inl e
      | Inr (n, rest) \<Rightarrow>
          (if sint n < 0 then Inr (NullBulk, rest)
           else if nat (sint n) > maxAlloc then Inl MakeslicePanic
           else case ReadFull (nat (sint n)) rest of
               Inl e \<Rightarrow> Inl e
             | Inr (buf, rest') \<Rightarrow>
                 (case readLine rest' of
                    Inl e \<Rightarrow> Inl e
                  | Inr (_, rest'') \<Rightarrow> Inr (Bulk buf, rest''))))"

fun Read_fuel :: "nat \<Rightarrow> string \<Rightarrow> Value read_result" where
  "Read_fuel 0 s = Inl OutOfFuel"
| "Read_fuel (Suc f) s =
     (case s of
        [] \<Rightarrow> Inl EOF
      | typ # rest \<Rightarrow>
          (if typ = TypeArray then readArray (Read_fuel f) rest
           else if typ = TypeBulk then readBulk rest
           else if typ = TypeSimpleString then
             (case readLine rest of Inl e \<Rightarrow> Inl e | Inr (line, r) \<Rightarrow> Inr (Str line, r))
           else if typ = TypeError then
             (case readLine rest of
                Inl e \<Rightarrow> Inl e
              | Inr (line, r) \<Rightarrow> Inr (Value TypeError line 0 [] False False, r))
           else if typ = TypeInteger then
             (case readInteger rest of Inl e \<Rightarrow> Inl e | Inr (n, r) \<Rightarrow> Inr (IntV n, r))
           else Inl (UnknownType typ)))"

definition Read :: "string \<Rightarrow> Value read_result" where
  "Read s = Read_fuel (Suc (length s)) s"

subsection \<open>Definitions: writer.go\<close>

text \<open>The bytes that \<open>Writer.Write\<close> sends, in order.\<close>

fun Write :: "Value \<Rightarrow> string" where
  "Write (Value t s n es null multi) =
     (if multi then concat (map Write es) else Marshal (Value t s n es null multi))"

text \<open>
  The frames that survive the wire: what \<open>Read\<close> can return. A line must not hold a
  newline, the fields that the type does not use are zero, and lengths stay below what
  \<open>make\<close> accepts.
\<close>

fun wire_ok :: "Value \<Rightarrow> bool" where
  "wire_ok (Value t s n es null multi) \<longleftrightarrow> \<not> multi \<and>
     ((t = TypeSimpleString \<or> t = TypeError) \<and> n = 0 \<and> es = [] \<and> \<not> null \<and> CHR 0x0A \<notin> set s
      \<or> t = TypeInteger \<and> s = [] \<and> es = [] \<and> \<not> null
      \<or> t = TypeBulk \<and> n = 0 \<and> es = [] \<and> (if null then s = [] else length s \<le> maxAlloc)
      \<or> t = TypeArray \<and> n = 0 \<and> s = [] \<and>
          (if null then es = []
           else sizeofValue * length es \<le> maxAlloc \<and> list_all wire_ok es))"

subsection \<open>Lines and integers\<close>

lemma ReadString_append:
  "CHR 0x0A \<notin> set l \<Longrightarrow> ReadString (l @ CHR 0x0A # rest) = Some (l @ [CHR 0x0A], rest)"
  by (induction l) auto

lemma readLine_append:
  assumes "CHR 0x0A \<notin> set l"
  shows "readLine (l @ crlf @ rest) = Inr (l, rest)"
proof -
  have "ReadString (l @ crlf @ rest) = Some (l @ crlf, rest)"
    using ReadString_append [of "l @ [CHR 0x0D]" rest] assms by (simp add: crlf_def)
  then show ?thesis by (simp add: readLine_def crlf_def nth_append)
qed

lemma readInteger_FormatInt: "readInteger (FormatInt n @ crlf @ rest) = Inr (n, rest)"
  by (simp add: readInteger_def readLine_append FormatInt_no_newline)

lemma maxAlloc_lt: "n \<le> maxAlloc \<Longrightarrow> n < 2 ^ 63"
  by (simp add: maxAlloc_def)

lemma readInteger_Itoa:
  "n \<le> maxAlloc \<Longrightarrow> readInteger (Itoa n @ crlf @ rest) = Inr (of_nat n, rest)"
  by (simp add: readInteger_def readLine_append Itoa_no_newline ParseInt_Itoa [OF maxAlloc_lt])

lemma sint_of_nat_alloc: "n \<le> maxAlloc \<Longrightarrow> sint (of_nat n :: int64) = int n"
  by (rule sint_of_nat64 [OF maxAlloc_lt])

lemma ParseInt_minus_one: "ParseInt ''-1'' = Some (- 1)"
  by (simp add: ParseInt_def is_digit_def)

lemma readInteger_minus_one: "readInteger (''-1'' @ crlf @ rest) = Inr (- 1, rest)"
  using readLine_append [of "''-1''" rest]
  by (simp add: readInteger_def ParseInt_minus_one)

lemma sizeofValue_le: "sizeofValue * n \<le> maxAlloc \<Longrightarrow> n \<le> maxAlloc"
  by (simp add: sizeofValue_def)

subsection \<open>A marshalled frame reads back\<close>

lemma readBulk_marshal:
  assumes "length s \<le> maxAlloc"
  shows "readBulk (Itoa (length s) @ crlf @ s @ crlf @ rest) = Inr (Bulk s, rest)"
  using assms readLine_append [of "[]" rest]
  by (simp add: readBulk_def readInteger_Itoa sint_of_nat_alloc ReadFull_def)

lemma readElems_concat:
  assumes "\<And>v rest. v \<in> set es \<Longrightarrow> rd (enc v @ rest) = Inr (v, rest)"
  shows "readElems rd (length es) (concat (map enc es) @ rest) = Inr (es, rest)"
  using assms by (induction es) simp_all

lemma readArray_marshal:
  assumes "sizeofValue * length es \<le> maxAlloc"
    and "\<And>v rest. v \<in> set es \<Longrightarrow> rd (enc v @ rest) = Inr (v, rest)"
  shows "readArray rd (Itoa (length es) @ crlf @ concat (map enc es) @ rest) = Inr (Array es, rest)"
  using assms readElems_concat [of es rd enc rest]
  by (simp add: readArray_def readInteger_Itoa sizeofValue_le sint_of_nat_alloc)

lemma Read_fuel_Marshal:
  "wire_ok v \<Longrightarrow> length (Marshal v) \<le> f \<Longrightarrow> Read_fuel f (Marshal v @ rest) = Inr (v, rest)"
proof (induction v arbitrary: f rest)
  case (Value t s n es null multi)
  then obtain g where f: "f = Suc g"
    by (cases f) (auto simp: marshalLine_def marshalBulk_def marshalArray_def split: if_splits)
  have nulls: "readBulk (''-1'' @ crlf @ rest) = Inr (NullBulk, rest)"
    "readArray rd (''-1'' @ crlf @ rest) = Inr (NullArray, rest)" for rd
    using readInteger_minus_one [of rest] by (simp_all add: readBulk_def readArray_def)
  show ?case
  proof (cases "t = TypeArray \<and> \<not> null")
    case True
    have elem: "Read_fuel g (Marshal v @ r) = Inr (v, r)" if "v \<in> set es" for v r
    proof (rule Value.IH [OF that])
      show "wire_ok v" using that Value.prems(1) True by (auto simp: list_all_iff)
      have "length (Marshal v) \<le> length (concat (map Marshal es))"
        using that by (auto simp: length_concat intro: member_le_sum_list)
      then show "length (Marshal v) \<le> g"
        using Value.prems(2) True f by (simp add: marshalArray_def)
    qed
    with True Value.prems f show ?thesis
      using readArray_marshal [of es "Read_fuel g" Marshal rest]
      by (simp add: marshalArray_def Array_def)
  next
    case False
    with Value.prems f nulls show ?thesis
      by (auto simp: marshalLine_def marshalBulk_def readBulk_marshal readLine_append
          readInteger_FormatInt value_defs split: if_splits)
  qed
qed

lemma Read_Marshal_append: "wire_ok v \<Longrightarrow> Read (Marshal v @ rest) = Inr (v, rest)"
  unfolding Read_def by (rule Read_fuel_Marshal) simp_all

subsection \<open>What a read consumes and returns\<close>

lemma ReadString_SomeD:
  "ReadString s = Some (l, r) \<Longrightarrow> \<exists>l'. l = l' @ [CHR 0x0A] \<and> CHR 0x0A \<notin> set l' \<and> s = l @ r"
proof (induction s arbitrary: l)
  case (Cons c cs)
  show ?case
  proof (cases "c = CHR 0x0A")
    case True
    with Cons.prems show ?thesis by simp
  next
    case False
    with Cons.prems obtain m where m: "ReadString cs = Some (m, r)" "l = c # m"
      by (auto split: option.splits)
    from Cons.IH [OF m(1)] obtain l' where "m = l' @ [CHR 0x0A]" "CHR 0x0A \<notin> set l'" "cs = m @ r"
      by blast
    with m False show ?thesis by (intro exI [of _ "c # l'"]) simp
  qed
qed simp

lemma readLine_InrD: "readLine s = Inr (l, r) \<Longrightarrow> s = l @ crlf @ r \<and> CHR 0x0A \<notin> set l"
proof -
  assume a: "readLine s = Inr (l, r)"
  then obtain line where line: "ReadString s = Some (line, r)" "2 \<le> length line"
      "line ! (length line - 2) = CHR 0x0D" "l = take (length line - 2) line"
    by (auto simp: readLine_def Let_def split: option.splits if_splits)
  obtain l' where l': "line = l' @ [CHR 0x0A]" "CHR 0x0A \<notin> set l'" "s = line @ r"
    using ReadString_SomeD [OF line(1)] by blast
  with line(2) have "l' \<noteq> []" by auto
  then obtain m c where "l' = m @ [c]" by (metis rev_exhaust)
  with l' line(3,4) show ?thesis by (auto simp: crlf_def nth_append)
qed

lemma readInteger_InrD: "readInteger s = Inr (n, r) \<Longrightarrow> \<exists>l. s = l @ crlf @ r"
  by (auto simp: readInteger_def split: sum.splits option.splits prod.splits dest: readLine_InrD)

lemma crlf_shorter: "s = l @ crlf @ r \<Longrightarrow> length r < length s"
  by (simp add: crlf_def)

lemma readLine_shorter: "readLine s = Inr (l, r) \<Longrightarrow> length r < length s"
  by (metis crlf_shorter readLine_InrD)

lemma readInteger_shorter: "readInteger s = Inr (n, r) \<Longrightarrow> length r < length s"
  by (metis crlf_shorter readInteger_InrD)

lemmas line_shorter = readLine_shorter readInteger_shorter

lemma readBulk_shorter: "readBulk s = Inr (v, r) \<Longrightarrow> length r < length s"
  by (fastforce simp: readBulk_def ReadFull_def split: sum.splits if_splits prod.splits dest!: line_shorter)

lemma readElems_shorter:
  assumes "\<And>s v r. rd s = Inr (v, r) \<Longrightarrow> length r < length s"
  shows "readElems rd n s = Inr (vs, r) \<Longrightarrow> length r \<le> length s"
  by (induction n arbitrary: s vs)
    (fastforce dest: assms split: sum.splits prod.splits)+

lemma readArray_shorter:
  assumes "\<And>s v r. rd s = Inr (v, r) \<Longrightarrow> length r < length s"
    and "readArray rd s = Inr (v, r)"
  shows "length r < length s"
proof -
  have elems: "length r' \<le> length t" if "readElems rd n t = Inr (vs, r')" for n t vs r'
    by (rule readElems_shorter [OF _ that]) (rule assms(1))
  from assms(2) show ?thesis
    by (fastforce simp: readArray_def split: sum.splits if_splits prod.splits
        dest!: readInteger_shorter elems)
qed

lemma Read_fuel_shorter: "Read_fuel f s = Inr (v, r) \<Longrightarrow> length r < length s"
proof (induction f arbitrary: s v r)
  case (Suc f)
  have arr: "length r < length t" if "readArray (Read_fuel f) t = Inr (v, r)" for t v r
    by (rule readArray_shorter [OF _ that]) (rule Suc.IH)
  from Suc.prems show ?case
    by (fastforce split: list.splits if_splits sum.splits prod.splits
        dest: line_shorter readBulk_shorter arr)
qed simp

lemma Read_shorter: "Read s = Inr (v, r) \<Longrightarrow> length r < length s"
  unfolding Read_def by (rule Read_fuel_shorter)

subsection \<open>The fuel suffices\<close>

lemma readElems_fuel_cong:
  assumes "\<And>t. length t \<le> length s \<Longrightarrow> rd t = rd' t"
    and "\<And>t v r. rd t = Inr (v, r) \<Longrightarrow> length r < length t"
  shows "readElems rd n s = readElems rd' n s"
  using assms(1)
proof (induction n arbitrary: s)
  case (Suc n)
  have "readElems rd n r = readElems rd' n r" if "rd s = Inr (v, r)" for v r
    using Suc.prems assms(2) [OF that] by (intro Suc.IH) simp
  with Suc.prems [of s] show ?case
    by (auto split: sum.splits prod.splits)
qed simp

lemma readElems_not_OutOfFuel:
  assumes "\<And>t. length t \<le> length s \<Longrightarrow> rd t \<noteq> Inl OutOfFuel"
    and "\<And>t v r. rd t = Inr (v, r) \<Longrightarrow> length r < length t"
  shows "readElems rd n s \<noteq> Inl OutOfFuel"
  using assms(1)
proof (induction n arbitrary: s)
  case (Suc n)
  have "readElems rd n r \<noteq> Inl OutOfFuel" if "rd s = Inr (v, r)" for v r
    using Suc.prems assms(2) [OF that] by (intro Suc.IH) simp
  with Suc.prems [of s] show ?case
    by (auto split: sum.splits prod.splits)
qed simp

lemma line_not_OutOfFuel:
  "readLine s \<noteq> Inl OutOfFuel" "readInteger s \<noteq> Inl OutOfFuel"
  by (auto simp: readLine_def readInteger_def Let_def
      split: option.splits sum.splits prod.splits if_splits)

lemma readBulk_not_OutOfFuel: "readBulk s \<noteq> Inl OutOfFuel"
  using line_not_OutOfFuel
  by (auto simp: readBulk_def ReadFull_def split: sum.splits prod.splits if_splits)

lemma Read_fuel_enough:
  "length s < f \<Longrightarrow> length s < g \<Longrightarrow> Read_fuel f s = Read_fuel g s"
proof (induction f arbitrary: g s)
  case (Suc f)
  then obtain g' where g: "g = Suc g'" by (cases g) auto
  have arr: "readArray (Read_fuel f) rest = readArray (Read_fuel g') rest" if "s = c # rest" for c rest
  proof -
    have "readElems (Read_fuel f) n r = readElems (Read_fuel g') n r"
      if "readInteger rest = Inr (m, r)" for n m r
    proof (rule readElems_fuel_cong)
      fix t :: string
      assume "length t \<le> length r"
      then show "Read_fuel f t = Read_fuel g' t"
        using readInteger_shorter [OF that] Suc.prems g \<open>s = c # rest\<close> by (intro Suc.IH) simp_all
    qed (rule Read_fuel_shorter)
    then show ?thesis
      by (auto simp: readArray_def split: sum.splits prod.splits)
  qed
  show ?case by (cases s) (simp_all add: g arr)
qed simp

lemma Read_fuel_not_OutOfFuel: "length s < f \<Longrightarrow> Read_fuel f s \<noteq> Inl OutOfFuel"
proof (induction f arbitrary: s)
  case (Suc f)
  have arr: "readArray (Read_fuel f) rest \<noteq> Inl OutOfFuel" if "s = c # rest" for c rest
  proof -
    have "readElems (Read_fuel f) n r \<noteq> Inl OutOfFuel"
      if "readInteger rest = Inr (m, r)" for n m r
    proof (rule readElems_not_OutOfFuel)
      fix t :: string
      assume "length t \<le> length r"
      then show "Read_fuel f t \<noteq> Inl OutOfFuel"
        using readInteger_shorter [OF that] Suc.prems \<open>s = c # rest\<close> by (intro Suc.IH) simp
    qed (rule Read_fuel_shorter)
    then show ?thesis
      using line_not_OutOfFuel by (auto simp: readArray_def split: sum.splits prod.splits)
  qed
  show ?case
    using line_not_OutOfFuel readBulk_not_OutOfFuel arr
    by (auto split: list.splits sum.splits prod.splits)
qed simp

lemma Read_not_OutOfFuel: "Read s \<noteq> Inl OutOfFuel"
  unfolding Read_def by (rule Read_fuel_not_OutOfFuel) simp

subsection \<open>Everything read is a frame that survives the wire\<close>

lemma readElems_all:
  assumes "\<And>s v r. rd s = Inr (v, r) \<Longrightarrow> P v"
  shows "readElems rd n s = Inr (vs, r) \<Longrightarrow> list_all P vs \<and> length vs = n"
  by (induction n arbitrary: s vs) (fastforce dest: assms split: sum.splits prod.splits)+

lemma Read_fuel_wire_ok: "Read_fuel f s = Inr (v, r) \<Longrightarrow> wire_ok v"
proof (induction f arbitrary: s v r)
  case (Suc f)
  have arr: "wire_ok v" if "readArray (Read_fuel f) rest = Inr (v, r)" for rest v r
  proof -
    have "list_all wire_ok vs \<and> length vs = n" if "readElems (Read_fuel f) n t = Inr (vs, r')" for n t vs r'
      by (rule readElems_all [OF _ that]) (rule Suc.IH)
    with that show ?thesis
      by (fastforce simp: readArray_def Array_def NullArray_def not_less
          split: sum.splits prod.splits if_splits)
  qed
  have blk: "wire_ok v" if "readBulk rest = Inr (v, r)" for rest v r
    using that
    by (auto simp: readBulk_def ReadFull_def Bulk_def NullBulk_def not_less
        split: sum.splits prod.splits if_splits)
  show ?case
    using Suc.prems
    by (auto simp: Str_def IntV_def split: list.splits if_splits sum.splits prod.splits
        dest: arr blk readLine_InrD)
qed simp

lemma Read_wire_ok: "Read s = Inr (v, r) \<Longrightarrow> wire_ok v"
  unfolding Read_def by (rule Read_fuel_wire_ok)

subsection \<open>The codec as an interface\<close>

text \<open>
  What the append-only file and the connection loop rely on: an encoder and a decoder
  of frames on a byte stream.
\<close>

locale frame_codec =
  fixes enc :: "'v \<Rightarrow> string"
    and dec :: "string \<Rightarrow> 'e + 'v \<times> string"
    and ok :: "'v \<Rightarrow> bool"
    and eof :: 'e
  assumes dec_enc: "ok v \<Longrightarrow> dec (enc v @ rest) = Inr (v, rest)"
    and dec_empty: "dec [] = Inl eof"
    and dec_progress: "dec s = Inr (v, r) \<Longrightarrow> length r < length s"
    and dec_ok: "dec s = Inr (v, r) \<Longrightarrow> ok v"
begin

lemma enc_nonempty: "ok v \<Longrightarrow> enc v \<noteq> []"
  using dec_enc [of v "[]"] dec_progress [of "enc v @ []"] by force

lemma enc_prefix_free: "ok v \<Longrightarrow> ok w \<Longrightarrow> enc v @ r = enc w @ r' \<Longrightarrow> v = w \<and> r = r'"
  by (metis Inr_inject Pair_inject dec_enc)

lemma stream_inj:
  "list_all ok vs \<Longrightarrow> list_all ok ws \<Longrightarrow> concat (map enc vs) = concat (map enc ws) \<Longrightarrow> vs = ws"
proof (induction vs arbitrary: ws)
  case Nil
  then show ?case using enc_nonempty by (cases ws) auto
next
  case (Cons v vs)
  then obtain w ws' where ws: "ws = w # ws'"
    using enc_nonempty by (cases ws) auto
  with Cons.prems have "v = w \<and> concat (map enc vs) = concat (map enc ws')"
    by (intro enc_prefix_free) simp_all
  with Cons ws show ?case by simp
qed

end

interpretation resp_codec: frame_codec Marshal Read wire_ok EOF
proof
  show "Read [] = Inl EOF" by (simp add: Read_def)
qed (auto intro: Read_Marshal_append Read_shorter Read_wire_ok)

subsection \<open>Properties\<close>

text \<open>C13: Every frame that the wire can carry is read back exactly, and the reader stops right
  behind it, whatever follows.\<close>

theorem Read_Marshal: "wire_ok v \<Longrightarrow> Read (Marshal v @ rest) = Inr (v, rest)"
  by (rule resp_codec.dec_enc)

theorem Read_Marshal_witness:
  "Read (Marshal (Array [Bulk ''GET'', NullBulk, IntV (- 7)]) @ ''+x'') =
     Inr (Array [Bulk ''GET'', NullBulk, IntV (- 7)], ''+x'')"
  by (rule Read_Marshal) (simp add: value_defs maxAlloc_def sizeofValue_def)

text \<open>C23: The reader always ends: the recursion never needs more levels than there are bytes, a
  successful read consumes at least one byte, and what it returns is a frame that the wire can carry.\<close>

theorem Read_total:
  "Read_fuel (Suc (length s) + n) s = Read s \<and>
   (case Read s of Inl err \<Rightarrow> err \<noteq> OutOfFuel | Inr (v, rest) \<Rightarrow> length rest < length s \<and> wire_ok v)"
  using Read_fuel_enough [of s "Suc (length s) + n" "Suc (length s)"] Read_not_OutOfFuel [of s]
    Read_shorter [of s] Read_wire_ok [of s]
  by (auto simp: Read_def split: sum.split)

text \<open>Two streams of frames with the same bytes are the same frames: no frame can be mistaken
  for another or for a part of one.\<close>

theorem frames_unambiguous:
  assumes "list_all wire_ok vs" "list_all wire_ok ws"
    and "concat (map Marshal vs) = concat (map Marshal ws)"
  shows "vs = ws"
  using assms by (rule resp_codec.stream_inj)

theorem frames_unambiguous_witness: "[OK, Bulk ''a''] = [Str ''OK'', Bulk ''a'']"
  by (rule frames_unambiguous) (simp_all add: value_defs maxAlloc_def)

text \<open>A client can take the server down: the length of an array or of a bulk string goes
  unchecked into \<open>make\<close>, which panics when it is out of range.\<close>

theorem huge_length_panics:
  assumes "maxAlloc < n" "n < 2 ^ 63"
  shows "Read (CHR ''*'' # Itoa n @ crlf @ rest) = Inl MakeslicePanic \<and>
    Read (CHR ''$'' # Itoa n @ crlf @ rest) = Inl MakeslicePanic"
proof -
  have int: "readInteger (Itoa n @ crlf @ rest) = Inr (of_nat n, rest)"
    by (simp add: readInteger_def readLine_append Itoa_no_newline ParseInt_Itoa [OF assms(2)])
  have "sint (of_nat n :: int64) = int n" by (rule sint_of_nat64 [OF assms(2)])
  with int assms(1) show ?thesis
    by (simp add: Read_def readArray_def readBulk_def sizeofValue_def)
qed

theorem huge_length_panics_witness:
  "Read (CHR ''*'' # Itoa (2 ^ 62) @ crlf @ []) = Inl MakeslicePanic"
  using huge_length_panics [of "2 ^ 62" "[]"] by (simp add: maxAlloc_def)

end
