(* ===== verification/Keyspace.thy ===== *)
theory Keyspace
  imports GoStd
begin

section \<open>The keyspace (internal/store/store.go, glob.go)\<close>

text \<open>
  The struct \<open>entry\<close> keeps all its typed fields, as in the code: \<open>None\<close> is a nil map or
  pointer, and that exactly one of them is populated is an invariant (\<open>wf_entry\<close>), not
  part of the type. Every operation is one critical section under the store's mutex and
  is a function from the store to its result and the new store. The argument \<open>c\<close> gives
  the results of the operation's calls of \<open>time.Now()\<close> in order, and \<open>is\<close> the order of
  its range loops. Writing through a pointer into the map is \<open>put\<close>.
\<close>

subsection \<open>Definitions: entries\<close>

datatype Kind = KindString | KindHash | KindList | KindSet | KindZSet

fun kind_string :: "Kind \<Rightarrow> string" where
  "kind_string KindString = ''string''"
| "kind_string KindHash = ''hash''"
| "kind_string KindList = ''list''"
| "kind_string KindSet = ''set''"
| "kind_string KindZSet = ''zset''"

datatype store_error = ErrWrongType | errNotAnInteger | errOverflow | errNoSuchKey

fun error_string :: "store_error \<Rightarrow> string" where
  "error_string ErrWrongType =
     ''WRONGTYPE Operation against a key holding the wrong kind of value''"
| "error_string errNotAnInteger = ''ERR value is not an integer or out of range''"
| "error_string errOverflow = ''ERR increment or decrement would overflow''"
| "error_string errNoSuchKey = ''ERR no such key''"

record zset =
  scores :: "(string, float64) fmap"

record entry =
  e_kind :: Kind
  e_str :: string
  e_hash :: "(string, string) fmap option"
  e_list :: "string list"
  e_set :: "string fset option"
  e_zset :: "zset option"
  expireAt :: Time

text \<open>The composite literal \<open>&entry{kind: k}\<close>: every other field is zero.\<close>

definition new_entry :: "Kind \<Rightarrow> entry" where
  "new_entry k = \<lparr>e_kind = k, e_str = [], e_hash = None, e_list = [], e_set = None,
                  e_zset = None, expireAt = 0\<rparr>"

definition expired :: "entry \<Rightarrow> Time \<Rightarrow> bool" where
  "expired e now \<longleftrightarrow> \<not> IsZero (expireAt e) \<and> \<not> now < expireAt e"

record Store =
  sdata :: "(string, entry) fmap"
  stopSweep :: bool

definition New :: Store where
  "New = \<lparr>sdata = fmempty, stopSweep = False\<rparr>"

definition Close :: "Store \<Rightarrow> Store" where
  "Close s = s\<lparr>stopSweep := True\<rparr>"

definition put :: "string \<Rightarrow> entry \<Rightarrow> Store \<Rightarrow> Store" where
  "put k e s = s\<lparr>sdata := fmupd k e (sdata s)\<rparr>"

definition delete_key :: "string \<Rightarrow> Store \<Rightarrow> Store" where
  "delete_key k s = s\<lparr>sdata := fmdrop k (sdata s)\<rparr>"

subsection \<open>Definitions: operations\<close>

text \<open>The body of the sweeper's loop for one tick at \<open>now\<close>.\<close>

definition sweepExpired :: "Time \<Rightarrow> Store \<Rightarrow> Store" where
  "sweepExpired now s =
     s\<lparr>sdata := fmfilter (\<lambda>k. case fmlookup (sdata s) k of
                              None \<Rightarrow> False | Some e \<Rightarrow> \<not> expired e now) (sdata s)\<rparr>"

definition getLocked :: "Time \<Rightarrow> Store \<Rightarrow> string \<Rightarrow> entry option" where
  "getLocked now s key =
     (case fmlookup (sdata s) key of
        None \<Rightarrow> None
      | Some e \<Rightarrow> if expired e now then None else Some e)"

definition StoreType :: "(nat \<Rightarrow> Time) \<Rightarrow> string \<Rightarrow> Store \<Rightarrow> Kind option" where
  "StoreType c key s = (case getLocked (c 0) s key of None \<Rightarrow> None | Some e \<Rightarrow> Some (e_kind e))"

fun Del :: "(nat \<Rightarrow> Time) \<Rightarrow> string list \<Rightarrow> Store \<Rightarrow> nat \<times> Store" where
  "Del c [] s = (0, s)"
| "Del c (k # ks) s =
     (if getLocked (c 0) s k \<noteq> None
      then let (n, s') = Del (\<lambda>i. c (Suc i)) ks (delete_key k s) in (Suc n, s')
      else Del (\<lambda>i. c (Suc i)) ks s)"

fun Exists :: "(nat \<Rightarrow> Time) \<Rightarrow> string list \<Rightarrow> Store \<Rightarrow> nat" where
  "Exists c [] s = 0"
| "Exists c (k # ks) s =
     (if getLocked (c 0) s k \<noteq> None then 1 else 0) + Exists (\<lambda>i. c (Suc i)) ks s"

definition Expire :: "(nat \<Rightarrow> Time) \<Rightarrow> string \<Rightarrow> Duration \<Rightarrow> Store \<Rightarrow> bool \<times> Store" where
  "Expire c key d s =
     (case getLocked (c 0) s key of
        None \<Rightarrow> (False, s)
      | Some e \<Rightarrow> (True, put key (e\<lparr>expireAt := timeAdd (c 1) d\<rparr>) s))"

definition ExpireAt :: "(nat \<Rightarrow> Time) \<Rightarrow> string \<Rightarrow> Time \<Rightarrow> Store \<Rightarrow> bool \<times> Store" where
  "ExpireAt c key at s =
     (case getLocked (c 0) s key of
        None \<Rightarrow> (False, s)
      | Some e \<Rightarrow> (True, put key (e\<lparr>expireAt := at\<rparr>) s))"

text \<open>The triple \<open>(ttl, exists, hasExpiry)\<close>.\<close>

definition ttl :: "(nat \<Rightarrow> Time) \<Rightarrow> string \<Rightarrow> Store \<Rightarrow> Duration \<times> bool \<times> bool" where
  "ttl c key s =
     (case getLocked (c 0) s key of
        None \<Rightarrow> (0, False, False)
      | Some e \<Rightarrow>
          (if IsZero (expireAt e) then (0, True, False)
           else (let d = timeSub (expireAt e) (c 1)
                 in (if sint d < 0 then 0 else d, True, True))))"

definition TTLSeconds :: "(nat \<Rightarrow> Time) \<Rightarrow> string \<Rightarrow> Store \<Rightarrow> int64" where
  "TTLSeconds c key s =
     (case ttl c key s of (d, ex, hasExpiry) \<Rightarrow>
        if \<not> ex then - 2
        else if \<not> hasExpiry then - 1
        else quot64 (d + time_Second - 1) time_Second)"

definition TTLMillis :: "(nat \<Rightarrow> Time) \<Rightarrow> string \<Rightarrow> Store \<Rightarrow> int64" where
  "TTLMillis c key s =
     (case ttl c key s of (d, ex, hasExpiry) \<Rightarrow>
        if \<not> ex then - 2
        else if \<not> hasExpiry then - 1
        else quot64 d time_Millisecond)"

definition Persist :: "(nat \<Rightarrow> Time) \<Rightarrow> string \<Rightarrow> Store \<Rightarrow> bool \<times> Store" where
  "Persist c key s =
     (case getLocked (c 0) s key of
        None \<Rightarrow> (False, s)
      | Some e \<Rightarrow>
          (if IsZero (expireAt e) then (False, s)
           else (True, put key (e\<lparr>expireAt := 0\<rparr>) s)))"

definition matchGlob :: "'a Runtime_scheme \<Rightarrow> string \<Rightarrow> string \<Rightarrow> bool" where
  "matchGlob rt pattern name = pathMatch rt pattern name"

definition Keys ::
    "'a Runtime_scheme \<Rightarrow> (nat \<Rightarrow> Time) \<Rightarrow> nat list \<Rightarrow> string \<Rightarrow> Store \<Rightarrow> string list" where
  "Keys rt c is pattern s =
     filter (\<lambda>k. case fmlookup (sdata s) k of
                   None \<Rightarrow> False
                 | Some e \<Rightarrow> \<not> expired e (c 0) \<and> matchGlob rt pattern k)
       (range_keys is (sdata s))"

definition FlushAll :: "Store \<Rightarrow> Store" where
  "FlushAll s = s\<lparr>sdata := fmempty\<rparr>"

definition DBSize :: "(nat \<Rightarrow> Time) \<Rightarrow> nat list \<Rightarrow> Store \<Rightarrow> nat" where
  "DBSize c is s =
     length (filter (\<lambda>k. case fmlookup (sdata s) k of
                           None \<Rightarrow> False | Some e \<Rightarrow> \<not> expired e (c 0))
               (range_keys is (sdata s)))"

definition Rename :: "(nat \<Rightarrow> Time) \<Rightarrow> string \<Rightarrow> string \<Rightarrow> Store \<Rightarrow> store_error option \<times> Store" where
  "Rename c src dst s =
     (case getLocked (c 0) s src of
        None \<Rightarrow> (Some errNoSuchKey, s)
      | Some e \<Rightarrow> (None, put dst e (delete_key src s)))"

subsection \<open>Definitions: the invariant\<close>

text \<open>
  ``Exactly one of the typed fields is populated, selected by kind'', and no container
  is ever left empty.
\<close>

definition wf_entry :: "entry \<Rightarrow> bool" where
  "wf_entry e \<longleftrightarrow>
     (e_kind e \<noteq> KindString \<longrightarrow> e_str e = []) \<and>
     (e_hash e \<noteq> None \<longleftrightarrow> e_kind e = KindHash) \<and> e_hash e \<noteq> Some fmempty \<and>
     (e_list e \<noteq> [] \<longleftrightarrow> e_kind e = KindList) \<and>
     (e_set e \<noteq> None \<longleftrightarrow> e_kind e = KindSet) \<and> e_set e \<noteq> Some {||} \<and>
     (e_zset e \<noteq> None \<longleftrightarrow> e_kind e = KindZSet) \<and> map_option scores (e_zset e) \<noteq> Some fmempty"

definition wf_store :: "Store \<Rightarrow> bool" where
  "wf_store s \<longleftrightarrow> fmpred (\<lambda>_. wf_entry) (sdata s)"

subsection \<open>Reading after writing\<close>

lemma sdata_put [simp]: "sdata (put k e s) = fmupd k e (sdata s)"
  by (simp add: put_def)

lemma sdata_delete_key [simp]: "sdata (delete_key k s) = fmdrop k (sdata s)"
  by (simp add: delete_key_def)

lemma stopSweep_writes [simp]:
  "stopSweep (put k e s) = stopSweep s" "stopSweep (delete_key k s) = stopSweep s"
  by (simp_all add: put_def delete_key_def)

lemma getLocked_put [simp]:
  "getLocked t (put k e s) k' =
     (if k' = k then (if expired e t then None else Some e) else getLocked t s k')"
  by (simp add: getLocked_def)

lemma getLocked_delete_key [simp]:
  "getLocked t (delete_key k s) k' = (if k' = k then None else getLocked t s k')"
  by (simp add: getLocked_def)

lemma getLocked_New [simp]: "getLocked t New k = None"
  by (simp add: getLocked_def New_def)

lemma getLocked_SomeD: "getLocked t s k = Some e \<Longrightarrow> fmlookup (sdata s) k = Some e \<and> \<not> expired e t"
  by (auto simp: getLocked_def split: option.splits if_splits)

lemma getLocked_Some_iff: "getLocked t s k = Some e \<longleftrightarrow> fmlookup (sdata s) k = Some e \<and> \<not> expired e t"
  by (auto simp: getLocked_def split: option.splits)

lemma expired_mono: "expired e t \<Longrightarrow> t \<le> t' \<Longrightarrow> expired e t'"
  by (simp add: expired_def)

lemma not_expired_new [simp]: "\<not> expired (new_entry k) t"
  by (simp add: expired_def new_entry_def IsZero_def)

lemma new_entry_kind [simp]: "e_kind (new_entry k) = k"
  by (simp add: new_entry_def)

lemma expired_cong: "expireAt e = expireAt e' \<Longrightarrow> expired e t = expired e' t"
  by (simp add: expired_def)

lemma getLocked_mono: "getLocked t s k = None \<Longrightarrow> t \<le> t' \<Longrightarrow> getLocked t' s k = None"
  by (auto simp: getLocked_def dest: expired_mono split: option.splits if_splits)

lemma getLocked_sweepExpired:
  "t0 \<le> t \<Longrightarrow> getLocked t (sweepExpired t0 s) k = getLocked t s k"
  by (auto simp: getLocked_def sweepExpired_def dest: expired_mono split: option.splits)

subsection \<open>The invariant is preserved\<close>

lemma wf_storeD: "wf_store s \<Longrightarrow> fmlookup (sdata s) k = Some e \<Longrightarrow> wf_entry e"
  by (auto simp: wf_store_def)

lemma wf_getLocked: "wf_store s \<Longrightarrow> getLocked t s k = Some e \<Longrightarrow> wf_entry e"
  by (auto dest: getLocked_SomeD wf_storeD)

lemma wf_put [wf_intros]: "wf_store s \<Longrightarrow> wf_entry e \<Longrightarrow> wf_store (put k e s)"
  by (auto simp: wf_store_def)

lemma wf_delete_key [wf_intros]: "wf_store s \<Longrightarrow> wf_store (delete_key k s)"
  by (auto simp: wf_store_def)

lemma wf_New [wf_intros]: "wf_store New"
  by (simp add: wf_store_def New_def)

lemma wf_expireAt_update [simp]: "wf_entry (e\<lparr>expireAt := t\<rparr>) = wf_entry e"
  by (simp add: wf_entry_def)

lemma wf_sweepExpired [wf_intros]: "wf_store s \<Longrightarrow> wf_store (sweepExpired t s)"
  by (auto simp: wf_store_def sweepExpired_def)

lemma wf_Del [wf_intros]: "wf_store s \<Longrightarrow> wf_store (snd (Del c ks s))"
  by (induction c ks s rule: Del.induct) (auto simp: wf_intros split: prod.splits)

lemma wf_Expire [wf_intros]: "wf_store s \<Longrightarrow> wf_store (snd (Expire c k d s))"
  by (auto simp: Expire_def intro!: wf_intros dest: wf_getLocked split: option.splits)

lemma wf_ExpireAt [wf_intros]: "wf_store s \<Longrightarrow> wf_store (snd (ExpireAt c k t s))"
  by (auto simp: ExpireAt_def intro!: wf_intros dest: wf_getLocked split: option.splits)

lemma wf_Persist [wf_intros]: "wf_store s \<Longrightarrow> wf_store (snd (Persist c k s))"
  by (auto simp: Persist_def intro!: wf_intros dest: wf_getLocked split: option.splits)

lemma wf_FlushAll [wf_intros]: "wf_store (FlushAll s)"
  by (simp add: wf_store_def FlushAll_def)

lemma wf_Rename [wf_intros]: "wf_store s \<Longrightarrow> wf_store (snd (Rename c src dst s))"
  by (auto simp: Rename_def intro!: wf_intros dest: wf_getLocked split: option.splits)

subsection \<open>Stores without expiry times\<close>

text \<open>On such a store the clock cannot be observed.\<close>

definition no_ttl :: "Store \<Rightarrow> bool" where
  "no_ttl s \<longleftrightarrow> fmpred (\<lambda>_ e. IsZero (expireAt e)) (sdata s)"

lemma getLocked_no_ttl: "no_ttl s \<Longrightarrow> getLocked t s k = fmlookup (sdata s) k"
  by (auto simp: getLocked_def no_ttl_def expired_def split: option.split)

lemma no_ttlD: "no_ttl s \<Longrightarrow> fmlookup (sdata s) k = Some e \<Longrightarrow> expireAt e = 0"
  by (auto simp: no_ttl_def IsZero_def)

lemma no_ttl_put [ttl_intros]: "no_ttl s \<Longrightarrow> expireAt e = 0 \<Longrightarrow> no_ttl (put k e s)"
  by (auto simp: no_ttl_def IsZero_def)

lemma no_ttl_delete_key [ttl_intros]: "no_ttl s \<Longrightarrow> no_ttl (delete_key k s)"
  by (auto simp: no_ttl_def)

lemma no_ttl_New [ttl_intros]: "no_ttl New"
  by (simp add: no_ttl_def New_def)

lemma no_ttl_Del [ttl_intros]: "no_ttl s \<Longrightarrow> no_ttl (snd (Del c ks s))"
  by (induction c ks s rule: Del.induct) (auto simp: ttl_intros split: prod.splits)

lemma no_ttl_Persist [ttl_intros]: "no_ttl s \<Longrightarrow> no_ttl (snd (Persist c k s))"
  by (auto simp: Persist_def intro!: ttl_intros split: option.splits)

lemma no_ttl_FlushAll [ttl_intros]: "no_ttl (FlushAll s)"
  by (simp add: no_ttl_def FlushAll_def)

lemma no_ttl_Rename [ttl_intros]: "no_ttl s \<Longrightarrow> no_ttl (snd (Rename c src dst s))"
  by (auto simp: Rename_def getLocked_no_ttl intro!: ttl_intros dest: no_ttlD split: option.splits)

lemma Del_clock: "no_ttl s \<Longrightarrow> Del c ks s = Del c' ks s"
proof (induction ks arbitrary: c c' s)
  case (Cons k ks)
  note IH = Cons.IH [of _ "\<lambda>i. c (Suc i)" "\<lambda>i. c' (Suc i)"]
  from Cons.prems IH [OF Cons.prems] IH [OF no_ttl_delete_key [OF Cons.prems]] show ?case
    by (simp add: getLocked_no_ttl)
qed simp

subsection \<open>Typed access as an interface\<close>

definition wrong_kind :: "Kind \<Rightarrow> Time \<Rightarrow> Store \<Rightarrow> string \<Rightarrow> bool" where
  "wrong_kind K t s k = (case getLocked t s k of None \<Rightarrow> False | Some e \<Rightarrow> e_kind e \<noteq> K)"

text \<open>
  \<open>hashOrWrongType\<close>, \<open>listOrWrongType\<close>, \<open>setOrWrongType\<close> and \<open>zsetOrWrongType\<close> follow one
  pattern: \<open>acc\<close> looks up the live entry, refuses another kind, hands out what \<open>sel\<close>
  selects of it, and may create a \<open>fresh\<close> entry where there is none. What their clients
  rely on is proved once, here.
\<close>

locale typed_lookup =
  fixes acc :: "Time \<Rightarrow> Store \<Rightarrow> string \<Rightarrow> bool \<Rightarrow> (store_error + 'p option) \<times> Store"
    and K :: Kind
    and fresh :: entry
    and sel :: "entry \<Rightarrow> 'p option"
  assumes acc_eq: "acc t s k create =
      (case getLocked t s k of
         None \<Rightarrow> (if \<not> create then (Inr None, s) else (Inr (sel fresh), put k fresh s))
       | Some e \<Rightarrow> (if e_kind e \<noteq> K then (Inl ErrWrongType, s) else (Inr (sel e), s)))"
    and fresh_kind: "e_kind fresh = K"
    and fresh_sel: "sel fresh \<noteq> None"
    and fresh_no_expiry: "expireAt fresh = 0"
    and sel_wf: "wf_entry e \<Longrightarrow> e_kind e = K \<Longrightarrow> sel e \<noteq> None"
begin

lemma acc_err:
  "acc t s k b = (Inl err, s') \<longleftrightarrow>
     s' = s \<and> err = ErrWrongType \<and> (\<exists>e. getLocked t s k = Some e \<and> e_kind e \<noteq> K)"
  by (auto simp: acc_eq split: option.splits if_splits)

lemma acc_read: "snd (acc t s k False) = s"
  by (simp add: acc_eq split: option.splits)

lemma acc_readD: "acc t s k False = (r, s') \<Longrightarrow> s' = s"
  using acc_read by (metis snd_conv)

lemma acc_None: "wf_store s \<Longrightarrow> acc t s k b = (Inr None, s') \<Longrightarrow> s' = s \<and> \<not> b \<and> getLocked t s k = None"
  using fresh_sel by (auto simp: acc_eq dest: wf_getLocked sel_wf split: option.splits if_splits)

lemma acc_Some:
  assumes "acc t s k b = (Inr (Some p), s')"
  obtains (found) e where "getLocked t s k = Some e" "e_kind e = K" "sel e = Some p" "s' = s"
  | (created) "getLocked t s k = None" "b" "sel fresh = Some p" "s' = put k fresh s"
  using assms by (auto simp: acc_eq split: option.splits if_splits)

lemma acc_lookup:
  assumes "acc t s k b = (Inr (Some p), s')"
  obtains e where "fmlookup (sdata s') k = Some e" "e_kind e = K" "sel e = Some p" "\<not> expired e t"
    "wf_store s \<Longrightarrow> e = fresh \<or> wf_entry e"
  using assms
proof (cases rule: acc_Some)
  case (found e)
  with that [of e] show ?thesis by (auto dest: getLocked_SomeD wf_storeD)
next
  case created
  with that [of fresh] show ?thesis
    by (simp add: fresh_kind expired_def fresh_no_expiry IsZero_def)
qed

lemma acc_create:
  assumes "wf_store s"
  obtains (wrong) "acc t s k True = (Inl ErrWrongType, s)"
  | (got) p s' where "acc t s k True = (Inr (Some p), s')"
proof (cases "getLocked t s k")
  case None
  with got fresh_sel show ?thesis by (auto simp: acc_eq)
next
  case (Some e)
  have "e_kind e = K \<Longrightarrow> sel e \<noteq> None" by (rule sel_wf [OF wf_getLocked [OF assms Some]])
  with Some wrong got show ?thesis by (cases "e_kind e = K") (auto simp: acc_eq)
qed

text \<open>What a client finds: another kind of value, or the container there, or an empty one.\<close>

lemma acc_wrong: "wrong_kind K t s k \<Longrightarrow> acc t s k b = (Inl ErrWrongType, s)"
  by (auto simp: acc_eq wrong_kind_def split: option.splits)

lemma acc_right:
  assumes "wf_store s" "\<not> wrong_kind K t s k"
  shows "fst (acc t s k False) = Inr (Option.bind (getLocked t s k) sel)"
    and "\<exists>s'. acc t s k True =
      (Inr (Some (case Option.bind (getLocked t s k) sel of None \<Rightarrow> the (sel fresh) | Some p \<Rightarrow> p)), s')"
  using assms fresh_sel sel_wf wf_getLocked [OF assms(1)]
  by (fastforce simp: acc_eq wrong_kind_def split: option.splits)+

lemma acc_clock: "no_ttl s \<Longrightarrow> acc t s k b = acc t' s k b"
  by (simp add: acc_eq getLocked_no_ttl)

lemma no_ttl_acc: "no_ttl s \<Longrightarrow> acc t s k b = (r, s') \<Longrightarrow> no_ttl s'"
  using fresh_no_expiry by (auto simp: acc_eq intro!: no_ttl_put split: option.splits if_splits)

lemma acc_frame: "acc t s k b = (r, s') \<Longrightarrow> k' \<noteq> k \<Longrightarrow> fmlookup (sdata s') k' = fmlookup (sdata s) k'"
  by (auto simp: acc_eq split: option.splits if_splits)

end

text \<open>
  A container the callers update in place: \<open>wr\<close> writes the updated container back through
  the entry, and \<open>ok\<close> says that it is not empty.
\<close>

locale typed_container = typed_lookup +
  fixes upd :: "'a \<Rightarrow> entry \<Rightarrow> entry"
    and wr :: "string \<Rightarrow> 'a \<Rightarrow> Store \<Rightarrow> Store"
    and ok :: "'a \<Rightarrow> bool"
  assumes wr_eq: "wr k p s = (case fmlookup (sdata s) k of None \<Rightarrow> s | Some e \<Rightarrow> put k (upd p e) s)"
    and upd_kind: "e_kind (upd p e) = e_kind e"
    and upd_expireAt: "expireAt (upd p e) = expireAt e"
    and upd_sel: "sel (upd p e) = Some p"
    and upd_wf: "wf_entry e \<or> e = fresh \<Longrightarrow> e_kind e = K \<Longrightarrow> ok p \<Longrightarrow> wf_entry (upd p e)"
begin

lemma fmlookup_wr:
  assumes "acc t s k b = (Inr (Some p), s')"
  shows "\<exists>e. fmlookup (sdata (wr k p' s')) k = Some e \<and> e_kind e = K \<and> sel e = Some p' \<and> \<not> expired e t"
proof -
  obtain e where e: "fmlookup (sdata s') k = Some e" "e_kind e = K" "\<not> expired e t"
    using assms by (rule acc_lookup)
  then have "\<not> expired (upd p' e) t" using expired_cong upd_expireAt by blast
  with e show ?thesis by (simp add: wr_eq upd_kind upd_sel)
qed

lemma wr_frame:
  "acc t s k b = (r, s') \<Longrightarrow> k' \<noteq> k \<Longrightarrow> fmlookup (sdata (wr k p s')) k' = fmlookup (sdata s) k'"
  by (auto simp: wr_eq acc_frame split: option.splits)

lemma no_ttl_wr: "no_ttl s \<Longrightarrow> no_ttl (wr k p s)"
  by (auto simp: wr_eq upd_expireAt intro!: no_ttl_put dest: no_ttlD split: option.split)

lemma wr_getLocked_frame:
  "acc t s k b = (r, s') \<Longrightarrow> k' \<noteq> k \<Longrightarrow> getLocked t' (wr k p s') k' = getLocked t' s k'"
  by (simp add: getLocked_def wr_frame)

lemma getLocked_wr:
  assumes "acc t s k b = (Inr (Some p), s')"
  shows "\<exists>e. getLocked t (wr k p' s') k = Some e \<and> e_kind e = K \<and> sel e = Some p'"
  using fmlookup_wr [OF assms, of p'] by (auto simp: getLocked_def)

lemma sel_at_wr:
  "acc t s k b = (Inr (Some p), s') \<Longrightarrow> Option.bind (getLocked t (wr k p' s') k) sel = Some p'"
  using getLocked_wr [of t s k b p s' p'] by auto

lemma wf_wr:
  assumes "wf_store s" "acc t s k b = (Inr (Some p), s')" "ok p'"
  shows "wf_store (wr k p' s')"
proof -
  obtain e where e: "fmlookup (sdata s') k = Some e" "e_kind e = K" "e = fresh \<or> wf_entry e"
    using assms(2) by (rule acc_lookup) (use assms(1) in blast)
  have "wf_entry e'" if "fmlookup (sdata (wr k p' s')) k' = Some e'" for k' e'
  proof (cases "k' = k")
    case True
    with that e assms(3) show ?thesis by (auto simp: wr_eq intro: upd_wf)
  next
    case False
    with that assms show ?thesis by (auto simp: wr_frame dest: wf_storeD)
  qed
  then show ?thesis by (auto simp: wf_store_def)
qed

lemma wf_wr_delete:
  assumes "wf_store s" "acc t s k b = (r, s')"
  shows "wf_store (delete_key k (wr k p' s'))"
  using assms wr_frame [OF assms(2)] by (auto simp: wf_store_def fmpred_iff)

end

subsection \<open>Properties\<close>

text \<open>C34: The sweeper cannot be observed: after a sweep at \<open>t0\<close> every later lookup finds what it
  would have found without it, and no entry that had expired by then is left.\<close>

theorem sweeper_unobservable:
  assumes "t0 \<le> t"
  shows "getLocked t (sweepExpired t0 s) k = getLocked t s k \<and>
    fmpred (\<lambda>_ e. \<not> expired e t0) (sdata (sweepExpired t0 s))"
  using getLocked_sweepExpired [OF assms] by (auto simp: sweepExpired_def fmpred_iff split: option.splits)

theorem sweeper_unobservable_witness:
  "getLocked 7 (sweepExpired 5 (put ''k'' ((new_entry KindString)\<lparr>expireAt := 6\<rparr>) New)) ''k'' = None"
  using sweeper_unobservable [of 5 7 "put ''k'' ((new_entry KindString)\<lparr>expireAt := 6\<rparr>) New" "''k''"]
  by (simp add: expired_def IsZero_def)

text \<open>\<open>DEL\<close> leaves none of its keys behind, at any time from the last clock reading on, and
  touches no other key.\<close>

theorem Del_removes:
  assumes "\<forall>i. c i \<le> t"
  shows "getLocked t (snd (Del c ks s)) k = (if k \<in> set ks then None else getLocked t s k)"
  using assms
proof (induction c ks s rule: Del.induct)
  case (2 c k' ks s)
  then show ?case
    using getLocked_mono [of "c 0" s k' t] by (auto split: prod.splits)
qed simp

theorem Del_removes_witness:
  "getLocked 3 (snd (Del (\<lambda>_. 3) [''a'', ''b''] (put ''a'' (new_entry KindString) New))) ''a'' = None"
  using Del_removes [of "\<lambda>_. 3" 3] by simp

text \<open>C35: \<open>EXPIRE\<close> on a live key sets the deadline \<open>now + d\<close>: the key is found with its old value
  until then and never from then on (a deadline equal to Go's zero time means none); a missing key is
  reported and nothing changes.\<close>

theorem Expire_deadline:
  "case getLocked (c 0) s k of
     None \<Rightarrow> Expire c k d s = (False, s)
   | Some e \<Rightarrow>
       fst (Expire c k d s) \<and>
       getLocked t (snd (Expire c k d s)) k' =
         (if k' \<noteq> k then getLocked t s k'
          else if c 1 + sint d \<noteq> 0 \<and> c 1 + sint d \<le> t then None
          else Some (e\<lparr>expireAt := c 1 + sint d\<rparr>))"
  by (auto simp: Expire_def timeAdd_def expired_def IsZero_def split: option.split)

text \<open>C36: \<open>TTL\<close> rounds the time that is left up to whole seconds and \<open>PTTL\<close> down to whole
  milliseconds, as long as a duration can hold it with a second to spare.\<close>

theorem TTL_rounding:
  assumes "fmlookup (sdata s) k = Some e" "expireAt e \<noteq> 0" "c 0 < expireAt e"
    and "expireAt e - c 1 \<le> 2 ^ 63 - 1000000000"
  shows "sint (TTLSeconds c k s) = (max 0 (expireAt e - c 1) + 999999999) div 1000000000 \<and>
    sint (TTLMillis c k s) = max 0 (expireAt e - c 1) div 1000000"
proof -
  define r where "r = max 0 (expireAt e - c 1)"
  have r: "0 \<le> r" "r \<le> 2 ^ 63 - 1000000000" using assms(4) by (auto simp: r_def)
  have "ttl c k s = (word_of_int r, True, True)"
    using assms r(2) by (auto simp: ttl_def getLocked_def expired_def IsZero_def timeSub_def r_def Let_def
        sint_of_int64 in_int64_def)
  moreover have "sint (quot64 (word_of_int r + time_Second - 1) time_Second) = (r + 999999999) div 1000000000"
  proof -
    have "word_of_int r + time_Second - 1 = (word_of_int (r + 999999999) :: int64)"
      by (simp add: time_Second_def)
    then show ?thesis unfolding time_units using r by (simp only:) (rule quot64_nonneg; simp)
  qed
  moreover have "sint (quot64 (word_of_int r) time_Millisecond) = r div 1000000"
    unfolding time_units by (rule quot64_nonneg) (use r in simp_all)
  ultimately show ?thesis by (simp add: TTLSeconds_def TTLMillis_def r_def)
qed

theorem TTL_rounding_witness:
  "sint (TTLSeconds (\<lambda>_. 100) ''k'' (put ''k'' ((new_entry KindString)\<lparr>expireAt := 1600000000\<rparr>) New)) = 2"
  using TTL_rounding [of "put ''k'' ((new_entry KindString)\<lparr>expireAt := 1600000000\<rparr>) New" "''k''"
      "(new_entry KindString)\<lparr>expireAt := 1600000000\<rparr>" "\<lambda>_. 100"]
  by simp

text \<open>\<open>RENAME\<close> moves the entry with its kind, value and deadline: the destination has it, the
  source is gone unless it is the destination, every other key is as before; a missing source is an
  error and changes nothing.\<close>

theorem Rename_moves:
  "case getLocked (c 0) s src of
     None \<Rightarrow> Rename c src dst s = (Some errNoSuchKey, s)
   | Some e \<Rightarrow>
       fst (Rename c src dst s) = None \<and>
       fmlookup (sdata (snd (Rename c src dst s))) k =
         (if k = dst then Some e else if k = src then None else fmlookup (sdata s) k)"
  by (auto simp: Rename_def split: option.split)

text \<open>\<open>KEYS\<close> lists exactly the live keys that match, each once, and \<open>DBSIZE\<close> counts the live
  keys, in whatever order the map is ranged over.\<close>

theorem Keys_DBSize_exact:
  "distinct (Keys rt c is p s) \<and>
   set (Keys rt c is p s) = {k. getLocked (c 0) s k \<noteq> None \<and> pathMatch rt p k} \<and>
   DBSize c is s = card {k. getLocked (c 0) s k \<noteq> None}"
proof -
  have "{k. getLocked (c 0) s k \<noteq> None} =
      set (filter (\<lambda>k. case fmlookup (sdata s) k of None \<Rightarrow> False | Some e \<Rightarrow> \<not> expired e (c 0))
        (range_keys is (sdata s)))"
    by (auto simp: getLocked_def mem_fmdom_iff split: option.splits if_splits)
  then have "DBSize c is s = card {k. getLocked (c 0) s k \<noteq> None}"
    unfolding DBSize_def by (simp only: distinct_card distinct_filter distinct_range_keys)
  moreover have "set (Keys rt c is p s) = {k. getLocked (c 0) s k \<noteq> None \<and> pathMatch rt p k}"
    by (auto simp: Keys_def matchGlob_def getLocked_def mem_fmdom_iff split: option.splits if_splits)
  ultimately show ?thesis by (simp add: Keys_def)
qed

end
