(* ===== verification/StringStore.thy ===== *)
theory StringStore
  imports Keyspace
begin

section \<open>Strings (internal/store/string.go)\<close>

text \<open>
  The string operations of the keyspace. An operation that can fail returns
  \<open>Inl error\<close> or \<open>Inr result\<close>; one that writes also returns the new store. The
  theorems characterise \<open>SET\<close> with its options, the counter with its overflow check,
  and show that a failing operation leaves the store as it was.
\<close>

subsection \<open>Definitions\<close>

record SetOptions =
  TTL :: Duration
  HasTTL :: bool
  OnlyIfNew :: bool
  OnlyIfOld :: bool

definition no_options :: SetOptions where
  "no_options = \<lparr>TTL = 0, HasTTL = False, OnlyIfNew = False, OnlyIfOld = False\<rparr>"

definition string_entry :: "string \<Rightarrow> entry" where
  "string_entry v = (new_entry KindString)\<lparr>e_str := v\<rparr>"

definition Set ::
    "(nat \<Rightarrow> Time) \<Rightarrow> string \<Rightarrow> string \<Rightarrow> SetOptions \<Rightarrow> Store \<Rightarrow> (store_error + bool) \<times> Store" where
  "Set c key val opts s =
     (let ex = (getLocked (c 0) s key \<noteq> None)
      in if OnlyIfNew opts \<and> ex then (Inr False, s)
         else if OnlyIfOld opts \<and> \<not> ex then (Inr False, s)
         else (let e = string_entry val;
                   e' = (if HasTTL opts then e\<lparr>expireAt := timeAdd (c 1) (TTL opts)\<rparr> else e)
               in (Inr True, put key e' s)))"

definition stringOrWrongType :: "Time \<Rightarrow> Store \<Rightarrow> string \<Rightarrow> store_error + entry option" where
  "stringOrWrongType t s key =
     (case getLocked t s key of
        None \<Rightarrow> Inr None
      | Some e \<Rightarrow> if e_kind e \<noteq> KindString then Inl ErrWrongType else Inr (Some e))"

definition Get :: "(nat \<Rightarrow> Time) \<Rightarrow> string \<Rightarrow> Store \<Rightarrow> store_error + string option" where
  "Get c key s =
     (case stringOrWrongType (c 0) s key of
        Inl err \<Rightarrow> Inl err
      | Inr None \<Rightarrow> Inr None
      | Inr (Some e) \<Rightarrow> Inr (Some (e_str e)))"

definition GetSet ::
    "(nat \<Rightarrow> Time) \<Rightarrow> string \<Rightarrow> string \<Rightarrow> Store \<Rightarrow> (store_error + string option) \<times> Store" where
  "GetSet c key val s =
     (case stringOrWrongType (c 0) s key of
        Inl err \<Rightarrow> (Inl err, s)
      | Inr r \<Rightarrow> (Inr (map_option e_str r), put key (string_entry val) s))"

definition MSet :: "nat list \<Rightarrow> (string, string) fmap \<Rightarrow> Store \<Rightarrow> Store" where
  "MSet is pairs s =
     fold (\<lambda>k s. case fmlookup pairs k of None \<Rightarrow> s | Some v \<Rightarrow> put k (string_entry v) s)
       (range_keys is pairs) s"

fun MGet :: "(nat \<Rightarrow> Time) \<Rightarrow> string list \<Rightarrow> Store \<Rightarrow> string option list" where
  "MGet c [] s = []"
| "MGet c (k # ks) s =
     (case getLocked (c 0) s k of
        None \<Rightarrow> None
      | Some e \<Rightarrow> if e_kind e \<noteq> KindString then None else Some (e_str e))
     # MGet (\<lambda>i. c (Suc i)) ks s"

definition IncrBy ::
    "(nat \<Rightarrow> Time) \<Rightarrow> string \<Rightarrow> int64 \<Rightarrow> Store \<Rightarrow> (store_error + int64) \<times> Store" where
  "IncrBy c key delta s =
     (case stringOrWrongType (c 0) s key of
        Inl err \<Rightarrow> (Inl err, s)
      | Inr r \<Rightarrow>
          (case (case r of None \<Rightarrow> Some 0 | Some e \<Rightarrow> ParseInt (e_str e)) of
             None \<Rightarrow> (Inl errNotAnInteger, s)
           | Some cur \<Rightarrow>
               (let nxt = cur + delta
                in if (sint delta > 0 \<and> sint nxt < sint cur) \<or> (sint delta < 0 \<and> sint nxt > sint cur)
                   then (Inl errOverflow, s)
                   else (Inr nxt,
                         case r of
                           Some e \<Rightarrow> put key (e\<lparr>e_str := FormatInt nxt\<rparr>) s
                         | None \<Rightarrow> put key (string_entry (FormatInt nxt)) s))))"

definition Append ::
    "(nat \<Rightarrow> Time) \<Rightarrow> string \<Rightarrow> string \<Rightarrow> Store \<Rightarrow> (store_error + nat) \<times> Store" where
  "Append c key val s =
     (case stringOrWrongType (c 0) s key of
        Inl err \<Rightarrow> (Inl err, s)
      | Inr None \<Rightarrow> (Inr (length val), put key (string_entry val) s)
      | Inr (Some e) \<Rightarrow>
          (Inr (length (e_str e @ val)), put key (e\<lparr>e_str := e_str e @ val\<rparr>) s))"

definition StrLen :: "(nat \<Rightarrow> Time) \<Rightarrow> string \<Rightarrow> Store \<Rightarrow> store_error + nat" where
  "StrLen c key s =
     (case stringOrWrongType (c 0) s key of
        Inl err \<Rightarrow> Inl err
      | Inr None \<Rightarrow> Inr 0
      | Inr (Some e) \<Rightarrow> Inr (length (e_str e)))"

subsection \<open>The invariant\<close>

lemma wf_string_entry [simp]: "wf_entry (string_entry v)"
  by (simp add: string_entry_def wf_entry_def new_entry_def)

lemma not_expired_string_entry [simp]: "\<not> expired (string_entry v) t"
  by (simp add: expired_def string_entry_def new_entry_def IsZero_def)

lemma string_entry_sel [simp]:
  "e_kind (string_entry v) = KindString" "e_str (string_entry v) = v" "expireAt (string_entry v) = 0"
  by (simp_all add: string_entry_def new_entry_def)

lemma wf_str_update: "wf_entry e \<Longrightarrow> e_kind e = KindString \<Longrightarrow> wf_entry (e\<lparr>e_str := v\<rparr>)"
  by (simp add: wf_entry_def)

lemma stringOrWrongType_SomeD:
  "stringOrWrongType t s k = Inr (Some e) \<Longrightarrow> getLocked t s k = Some e \<and> e_kind e = KindString"
  by (auto simp: stringOrWrongType_def split: option.splits if_splits)

lemma wf_Set [wf_intros]: "wf_store s \<Longrightarrow> wf_store (snd (Set c k v opts s))"
  by (auto simp: Set_def Let_def intro!: wf_intros)

lemma wf_GetSet [wf_intros]: "wf_store s \<Longrightarrow> wf_store (snd (GetSet c k v s))"
  by (auto simp: GetSet_def intro!: wf_intros split: sum.splits)

lemma wf_fold_store:
  "wf_store s \<Longrightarrow> (\<And>x s. wf_store s \<Longrightarrow> wf_store (f x s)) \<Longrightarrow> wf_store (fold f xs s)"
  by (induction xs arbitrary: s) auto

lemma wf_MSet [wf_intros]: "wf_store s \<Longrightarrow> wf_store (MSet is ps s)"
  unfolding MSet_def by (rule wf_fold_store) (auto intro!: wf_intros split: option.splits)

lemma wf_IncrBy [wf_intros]: "wf_store s \<Longrightarrow> wf_store (snd (IncrBy c k d s))"
  by (auto simp: IncrBy_def Let_def intro!: wf_intros wf_str_update
      dest!: stringOrWrongType_SomeD dest: wf_getLocked split: sum.splits option.splits)

lemma wf_Append [wf_intros]: "wf_store s \<Longrightarrow> wf_store (snd (Append c k v s))"
  by (auto simp: Append_def intro!: wf_intros wf_str_update
      dest!: stringOrWrongType_SomeD dest: wf_getLocked split: sum.splits option.splits)

subsection \<open>A failing operation changes nothing\<close>

lemma Set_not_err: "Set c k v opts s \<noteq> (Inl err, s')"
  by (simp add: Set_def Let_def)

lemma GetSet_err: "GetSet c k v s = (Inl err, s') \<Longrightarrow> s' = s"
  by (auto simp: GetSet_def split: sum.splits)

lemma IncrBy_err: "IncrBy c k d s = (Inl err, s') \<Longrightarrow> s' = s"
  by (auto simp: IncrBy_def Let_def split: sum.splits option.splits if_splits)

lemma Append_err: "Append c k v s = (Inl err, s') \<Longrightarrow> s' = s"
  by (auto simp: Append_def split: sum.splits option.splits)

subsection \<open>Several keys at once\<close>

text \<open>The loop of \<open>MSet\<close> in closed form, whatever order the map is ranged in.\<close>

lemma MSet_order: "MSet is ps s = s\<lparr>sdata := sdata s ++\<^sub>f fmmap string_entry ps\<rparr>"
proof -
  have "fold (\<lambda>k s. case fmlookup ps k of None \<Rightarrow> s | Some v \<Rightarrow> put k (string_entry v) s) ks s =
      s\<lparr>sdata := sdata s ++\<^sub>f fmrestrict_set (set ks) (fmmap string_entry ps)\<rparr>" for ks
  proof (induction ks arbitrary: s)
    case (Cons k ks)
    have "(case fmlookup ps k of None \<Rightarrow> sdata s | Some v \<Rightarrow> fmupd k (string_entry v) (sdata s)) ++\<^sub>f
        fmmap string_entry (fmrestrict_set (set ks) ps) =
      sdata s ++\<^sub>f fmmap string_entry (fmrestrict_set (insert k (set ks)) ps)"
      by (rule fmap_ext) (auto simp: fmdom_notI split: option.splits if_splits)
    then show ?case
      by (simp add: Cons put_def split: option.splits)
  qed simp
  note this [of "range_keys is ps"]
  moreover have "fmrestrict_set (set (range_keys is ps)) (fmmap string_entry ps) = fmmap string_entry ps"
    by (rule fmap_ext) (auto simp: mem_fmdom_iff fmlookup_dom_iff)
  ultimately show ?thesis by (simp add: MSet_def)
qed

subsection \<open>Properties\<close>

text \<open>C19: \<open>SET\<close> with its options. \<open>NX\<close> refuses a live key and \<open>XX\<close> a missing one, and then nothing
  changes; otherwise the key holds the string, whatever kind of value was there, until the deadline
  if there is one, and without a deadline otherwise. No other key is touched. What decides is
  \<open>HasTTL\<close>: with it a \<open>TTL\<close> of zero is a deadline that has passed, so the key is gone at once, where
  the comment on the field says that zero means no expiry.\<close>

theorem Set_spec:
  "if (OnlyIfNew opts \<and> getLocked (c 0) s k \<noteq> None) \<or> (OnlyIfOld opts \<and> getLocked (c 0) s k = None)
   then Set c k v opts s = (Inr False, s)
   else fst (Set c k v opts s) = Inr True \<and>
     Get (\<lambda>_. t) k (snd (Set c k v opts s)) =
       Inr (if HasTTL opts \<and> c 1 + sint (TTL opts) \<noteq> 0 \<and> c 1 + sint (TTL opts) \<le> t then None else Some v) \<and>
     fmdrop k (sdata (snd (Set c k v opts s))) = fmdrop k (sdata s)"
proof -
  have "fmdrop k (fmupd k e m) = fmdrop k m" for e :: entry and m by (rule fmap_ext) simp
  then show ?thesis
    by (auto simp: Set_def Let_def Get_def stringOrWrongType_def getLocked_def expired_def IsZero_def timeAdd_def)
qed

text \<open>C18: \<open>INCRBY\<close> computes the exact sum or reports an overflow, never a wrapped number: on a
  missing key (counted as 0) or a string that is a 64-bit integer, the new value is the sum if it
  fits in 64 bits; in every other case there is an error and the store is unchanged.\<close>

theorem IncrBy_exact:
  "case Get c k s of
     Inl err \<Rightarrow> IncrBy c k d s = (Inl err, s)
   | Inr v \<Rightarrow>
       (case (case v of None \<Rightarrow> Some 0 | Some x \<Rightarrow> ParseInt x) of
          None \<Rightarrow> IncrBy c k d s = (Inl errNotAnInteger, s)
        | Some cur \<Rightarrow>
            (if in_int64 (sint cur + sint d)
             then fst (IncrBy c k d s) = Inr (word_of_int (sint cur + sint d)) \<and>
                  Get c k (snd (IncrBy c k d s)) =
                    Inr (Some (FormatInt (word_of_int (sint cur + sint d)))) \<and>
                  fmdrop k (sdata (snd (IncrBy c k d s))) = fmdrop k (sdata s)
             else IncrBy c k d s = (Inl errOverflow, s)))"
proof -
  have over: "in_int64 (sint a + sint b) \<longleftrightarrow>
      \<not> ((sint b > 0 \<and> sint (a + b) < sint a) \<or> (sint b < 0 \<and> sint (a + b) > sint a))" for a b :: int64
    by (rule add_overflow_iff)
  have drop: "fmdrop k (fmupd k e m) = fmdrop k m" for e :: entry and m by (rule fmap_ext) simp
  have sum: "word_of_int (sint a + sint b) = a + b" for a b :: int64 by simp
  show ?thesis
    unfolding over sum Get_def IncrBy_def
    by (cases "stringOrWrongType (c 0) s k")
      (auto simp: Let_def drop stringOrWrongType_def expired_def IsZero_def dest: getLocked_SomeD
        split: option.splits if_splits)
qed

text \<open>\<open>MSET\<close> writes all its pairs, whatever order its map is ranged over: \<open>MGET\<close> then finds
  the values, and no other key has changed.\<close>

theorem MSet_MGet:
  assumes "list_all (\<lambda>k. k |\<in>| fmdom ps) ks"
  shows "MGet c ks (MSet is ps s) = map (fmlookup ps) ks \<and>
    fmdrop_fset (fmdom ps) (sdata (MSet is ps s)) = fmdrop_fset (fmdom ps) (sdata s)"
proof -
  have "getLocked t (MSet is ps s) k = map_option string_entry (fmlookup ps k)"
    if "k |\<in>| fmdom ps" for t k
    using that by (auto simp: getLocked_def MSet_order mem_fmdom_iff)
  with assms have "MGet c ks (MSet is ps s) = map (fmlookup ps) ks"
    by (induction ks arbitrary: c) (auto simp: mem_fmdom_iff)
  moreover have "fmdrop_fset (fmdom ps) (sdata (MSet is ps s)) = fmdrop_fset (fmdom ps) (sdata s)"
    by (rule fmap_ext) (auto simp: MSet_order)
  ultimately show ?thesis ..
qed

theorem MSet_MGet_witness:
  "MGet (\<lambda>_. 9) [''b'', ''a''] (MSet [1] (fmap_of_list [(''a'', ''1''), (''b'', ''2'')]) New) =
     [Some ''2'', Some ''1'']"
  using MSet_MGet [of "fmap_of_list [(''a'', ''1''), (''b'', ''2'')]" "[''b'', ''a'']" "\<lambda>_. 9" "[1]" New]
  by (simp add: fmlookup_of_list)

text \<open>\<open>APPEND\<close> extends the string that \<open>GET\<close> finds (the empty one if there is none), returns its
  new length, which \<open>STRLEN\<close> then reports, and refuses a value of another kind.\<close>

theorem Append_spec:
  "case Get c k s of
     Inl err \<Rightarrow> Append c k v s = (Inl err, s)
   | Inr old \<Rightarrow>
       (let new = (case old of None \<Rightarrow> [] | Some x \<Rightarrow> x) @ v
        in fst (Append c k v s) = Inr (length new) \<and>
           Get c k (snd (Append c k v s)) = Inr (Some new) \<and>
           StrLen c k (snd (Append c k v s)) = Inr (length new))"
  unfolding Get_def Append_def StrLen_def
  by (cases "stringOrWrongType (c 0) s k")
    (auto simp: stringOrWrongType_def expired_def IsZero_def dest: getLocked_SomeD
      split: option.splits if_splits)

end
