(* ===== verification/HashStore.thy ===== *)
theory HashStore
  imports StringStore
begin

section \<open>Hashes (internal/store/hash.go)\<close>

text \<open>
  The hash operations. \<open>hashOrWrongType\<close> hands out the entry's own map, which the callers
  then update in place; \<open>set_hash\<close> is that write. An assignment into a nil map panics in
  Go: the operations that assign return \<open>None\<close> in that case, and the theorems show that
  it cannot happen on a well-formed store.
\<close>

subsection \<open>Definitions\<close>

definition new_hash :: entry where
  "new_hash = (new_entry KindHash)\<lparr>e_hash := Some fmempty\<rparr>"

definition hashOrWrongType ::
    "Time \<Rightarrow> Store \<Rightarrow> string \<Rightarrow> bool \<Rightarrow> (store_error + (string, string) fmap option) \<times> Store" where
  "hashOrWrongType t s key create =
     (case getLocked t s key of
        None \<Rightarrow>
          (if \<not> create then (Inr None, s) else (Inr (e_hash new_hash), put key new_hash s))
      | Some e \<Rightarrow>
          (if e_kind e \<noteq> KindHash then (Inl ErrWrongType, s) else (Inr (e_hash e), s)))"

definition set_hash :: "string \<Rightarrow> (string, string) fmap \<Rightarrow> Store \<Rightarrow> Store" where
  "set_hash key h s =
     (case fmlookup (sdata s) key of None \<Rightarrow> s | Some e \<Rightarrow> put key (e\<lparr>e_hash := Some h\<rparr>) s)"

definition HSet ::
    "(nat \<Rightarrow> Time) \<Rightarrow> nat list \<Rightarrow> string \<Rightarrow> (string, string) fmap \<Rightarrow> Store
     \<Rightarrow> ((store_error + nat) \<times> Store) option" where
  "HSet c is key flds s =
     (case hashOrWrongType (c 0) s key True of
        (Inl err, s') \<Rightarrow> Some (Inl err, s')
      | (Inr None, s') \<Rightarrow> if range_keys is flds = [] then Some (Inr 0, s') else None
      | (Inr (Some h), s') \<Rightarrow>
          (let (created, h') = fold (assign_entry flds) (range_keys is flds) (0, h)
           in Some (Inr created, set_hash key h' s')))"

definition HGet :: "(nat \<Rightarrow> Time) \<Rightarrow> string \<Rightarrow> string \<Rightarrow> Store \<Rightarrow> store_error + string option" where
  "HGet c key field s =
     (case fst (hashOrWrongType (c 0) s key False) of
        Inl err \<Rightarrow> Inl err
      | Inr None \<Rightarrow> Inr None
      | Inr (Some h) \<Rightarrow> Inr (fmlookup h field))"

text \<open>Reading a nil map finds nothing.\<close>

definition HMGet ::
    "(nat \<Rightarrow> Time) \<Rightarrow> string \<Rightarrow> string list \<Rightarrow> Store \<Rightarrow> store_error + string option list" where
  "HMGet c key flds s =
     (case fst (hashOrWrongType (c 0) s key False) of
        Inl err \<Rightarrow> Inl err
      | Inr h \<Rightarrow> Inr (map (\<lambda>f. case h of None \<Rightarrow> None | Some m \<Rightarrow> fmlookup m f) flds))"

definition HGetAll :: "(nat \<Rightarrow> Time) \<Rightarrow> string \<Rightarrow> Store \<Rightarrow> store_error + (string, string) fmap option" where
  "HGetAll c key s = fst (hashOrWrongType (c 0) s key False)"

definition HDel ::
    "(nat \<Rightarrow> Time) \<Rightarrow> string \<Rightarrow> string list \<Rightarrow> Store \<Rightarrow> (store_error + nat) \<times> Store" where
  "HDel c key flds s =
     (case hashOrWrongType (c 0) s key False of
        (Inl err, s') \<Rightarrow> (Inl err, s')
      | (Inr None, s') \<Rightarrow> (Inr 0, s')
      | (Inr (Some h), s') \<Rightarrow>
          (let (n, h') = fold remove_entry flds (0, h)
           in (Inr n, if fmdom h' = {||} then delete_key key (set_hash key h' s')
                      else set_hash key h' s')))"

definition HExists :: "(nat \<Rightarrow> Time) \<Rightarrow> string \<Rightarrow> string \<Rightarrow> Store \<Rightarrow> store_error + bool" where
  "HExists c key field s =
     (case fst (hashOrWrongType (c 0) s key False) of
        Inl err \<Rightarrow> Inl err
      | Inr None \<Rightarrow> Inr False
      | Inr (Some h) \<Rightarrow> Inr (fmlookup h field \<noteq> None))"

definition HLen :: "(nat \<Rightarrow> Time) \<Rightarrow> string \<Rightarrow> Store \<Rightarrow> store_error + nat" where
  "HLen c key s =
     (case fst (hashOrWrongType (c 0) s key False) of
        Inl err \<Rightarrow> Inl err
      | Inr None \<Rightarrow> Inr 0
      | Inr (Some h) \<Rightarrow> Inr (fcard (fmdom h)))"

definition HKeys :: "(nat \<Rightarrow> Time) \<Rightarrow> nat list \<Rightarrow> string \<Rightarrow> Store \<Rightarrow> store_error + string list" where
  "HKeys c is key s =
     (case fst (hashOrWrongType (c 0) s key False) of
        Inl err \<Rightarrow> Inl err
      | Inr None \<Rightarrow> Inr []
      | Inr (Some h) \<Rightarrow> Inr (range_keys is h))"

definition HVals :: "(nat \<Rightarrow> Time) \<Rightarrow> nat list \<Rightarrow> string \<Rightarrow> Store \<Rightarrow> store_error + string list" where
  "HVals c is key s =
     (case fst (hashOrWrongType (c 0) s key False) of
        Inl err \<Rightarrow> Inl err
      | Inr None \<Rightarrow> Inr []
      | Inr (Some h) \<Rightarrow> Inr (List.map_filter (fmlookup h) (range_keys is h)))"

definition HIncrBy ::
    "(nat \<Rightarrow> Time) \<Rightarrow> string \<Rightarrow> string \<Rightarrow> int64 \<Rightarrow> Store \<Rightarrow> ((store_error + int64) \<times> Store) option" where
  "HIncrBy c key field delta s =
     (case hashOrWrongType (c 0) s key True of
        (Inl err, s') \<Rightarrow> Some (Inl err, s')
      | (Inr None, s') \<Rightarrow> None
      | (Inr (Some h), s') \<Rightarrow>
          (case (case fmlookup h field of None \<Rightarrow> Some 0 | Some v \<Rightarrow> ParseInt v) of
             None \<Rightarrow> Some (Inl errNotAnInteger, s')
           | Some cur \<Rightarrow>
               (let nxt = cur + delta
                in Some (Inr nxt, set_hash key (fmupd field (FormatInt nxt) h) s'))))"

subsection \<open>Typed access\<close>

interpretation hash: typed_container hashOrWrongType KindHash new_hash e_hash
  "\<lambda>h. e_hash_update (\<lambda>_. Some h)" set_hash "\<lambda>h. h \<noteq> fmempty"
  by unfold_locales
    (auto simp: hashOrWrongType_def set_hash_def new_hash_def new_entry_def wf_entry_def
      split: option.splits)

text \<open>The loops of \<open>HSet\<close> and \<open>HDel\<close> in closed form, whatever order the map is ranged in.\<close>

lemma HSet_eq:
  "HSet c is k flds s =
     (case hashOrWrongType (c 0) s k True of
        (Inl err, s') \<Rightarrow> Some (Inl err, s')
      | (Inr None, s') \<Rightarrow> if flds = fmempty then Some (Inr 0, s') else None
      | (Inr (Some h), s') \<Rightarrow>
          Some (Inr (card {f. f |\<in>| fmdom flds \<and> fmlookup h f = None}), set_hash k (h ++\<^sub>f flds) s'))"
  by (simp add: HSet_def range_keys_empty_iff fold_assign_range
      split: prod.split sum.split option.split)

lemma HDel_eq:
  "HDel c k fs s =
     (case hashOrWrongType (c 0) s k False of
        (Inl err, s') \<Rightarrow> (Inl err, s')
      | (Inr None, s') \<Rightarrow> (Inr 0, s')
      | (Inr (Some h), s') \<Rightarrow>
          (Inr (card {f \<in> set fs. fmlookup h f \<noteq> None}),
           let h' = fmdrop_set (set fs) h
           in if h' = fmempty then delete_key k (set_hash k h' s') else set_hash k h' s'))"
  by (simp add: HDel_def fmdom_empty_iff fold_remove_entry Let_def
      split: prod.split sum.split option.split)

subsection \<open>The invariant, and no assignment into a nil map\<close>

lemma HSet_total:
  assumes "wf_store s" "flds \<noteq> fmempty"
  shows "\<exists>r s'. HSet c is k flds s = Some (r, s') \<and> wf_store s'"
  using assms(1)
proof (cases rule: hash.acc_create [where t = "c 0" and k = k])
  case (got h s')
  with assms show ?thesis by (auto simp: HSet_eq intro: hash.wf_wr)
qed (simp add: HSet_eq assms(1))

lemma wf_HDel [wf_intros]: "wf_store s \<Longrightarrow> wf_store (snd (HDel c k fs s))"
  by (auto simp: HDel_eq Let_def hash.acc_err intro: hash.wf_wr hash.wf_wr_delete
      dest: hash.acc_readD split: prod.splits sum.splits option.splits)

lemma HIncrBy_unparsable:
  assumes "hashOrWrongType t s k b = (Inr (Some h), s')"
    and "fmlookup h f = Some v"
  shows "s' = s"
  using assms(1)
proof (cases rule: hash.acc_Some)
  case created
  with assms(2) show ?thesis by (simp add: new_hash_def)
qed

lemma HIncrBy_total:
  assumes "wf_store s"
  shows "\<exists>r s'. HIncrBy c k f d s = Some (r, s') \<and> wf_store s'"
  using assms
proof (cases rule: hash.acc_create [where t = "c 0" and k = k])
  case (got h s')
  show ?thesis
  proof (cases "case fmlookup h f of None \<Rightarrow> Some 0 | Some v \<Rightarrow> ParseInt v")
    case None
    with got assms show ?thesis
      by (auto simp: HIncrBy_def dest: HIncrBy_unparsable split: option.splits)
  next
    case (Some cur)
    with got assms show ?thesis by (auto simp: HIncrBy_def Let_def intro: hash.wf_wr)
  qed
qed (simp add: HIncrBy_def assms)

subsection \<open>A failing operation changes nothing\<close>

lemma HSet_err: "HSet c is k flds s = Some (Inl err, s') \<Longrightarrow> s' = s"
  by (auto simp: HSet_eq hash.acc_err split: prod.splits sum.splits option.splits if_splits)

lemma HDel_err: "HDel c k fs s = (Inl err, s') \<Longrightarrow> s' = s"
  by (auto simp: HDel_eq hash.acc_err split: prod.splits sum.splits option.splits)

lemma HIncrBy_err: "HIncrBy c k f d s = Some (Inl err, s') \<Longrightarrow> s' = s"
  by (auto simp: HIncrBy_def hash.acc_err Let_def dest: HIncrBy_unparsable
      split: prod.splits sum.splits option.splits)

subsection \<open>Properties\<close>

text \<open>The abstract hash at a key: the empty map where there is no entry.\<close>

definition hash_at :: "Time \<Rightarrow> Store \<Rightarrow> string \<Rightarrow> (string, string) fmap" where
  "hash_at t s k = (case Option.bind (getLocked t s k) e_hash of None \<Rightarrow> fmempty | Some h \<Rightarrow> h)"

lemma hash_create:
  "wf_store s \<Longrightarrow> \<not> wrong_kind KindHash t s k \<Longrightarrow> \<exists>s'. hashOrWrongType t s k True = (Inr (Some (hash_at t s k)), s')"
  using hash.acc_right(2) [of s t k] by (simp add: hash_at_def new_hash_def cong: option.case_cong)

lemma hash_lookup:
  "wf_store s \<Longrightarrow> \<not> wrong_kind KindHash t s k \<Longrightarrow>
   fst (hashOrWrongType t s k False) = Inr None \<and> hash_at t s k = fmempty \<or>
   fst (hashOrWrongType t s k False) = Inr (Some (hash_at t s k))"
  using hash.acc_right(1) [of s t k] by (auto simp: hash_at_def split: option.split)

text \<open>A store with the hash \<open>{f: 1}\<close> at the key \<open>h\<close>.\<close>

definition sample_hash :: Store where
  "sample_hash = put ''h'' (new_hash\<lparr>e_hash := Some (fmupd ''f'' ''1'' fmempty)\<rparr>) New"

lemma sample_hash_ok:
  "wf_store sample_hash" "\<not> wrong_kind KindHash t sample_hash ''h''"
  "hash_at t sample_hash ''h'' = fmupd ''f'' ''1'' fmempty"
  by (auto simp: sample_hash_def wrong_kind_def hash_at_def new_hash_def new_entry_def wf_entry_def
      expired_def IsZero_def intro!: wf_intros)

text \<open>C20: \<open>HSET\<close> refines the update of the abstract hash: the new fields override the old ones, the
  reply counts the fields that were not there, no other key changes, and the order in which the
  arguments' map is ranged over does not matter.\<close>

theorem HSet_refines:
  assumes "wf_store s" "flds \<noteq> fmempty" "\<not> wrong_kind KindHash (c 0) s k"
  shows "\<exists>s'. HSet c is k flds s =
      Some (Inr (card {f. f |\<in>| fmdom flds \<and> f |\<notin>| fmdom (hash_at (c 0) s k)}), s') \<and>
    hash_at (c 0) s' k = hash_at (c 0) s k ++\<^sub>f flds \<and>
    (\<forall>t k'. k' \<noteq> k \<longrightarrow> getLocked t s' k' = getLocked t s k')"
proof -
  obtain s1 where a: "hashOrWrongType (c 0) s k True = (Inr (Some (hash_at (c 0) s k)), s1)"
    using hash_create [OF assms(1,3)] by blast
  have "hash_at (c 0) (set_hash k (hash_at (c 0) s k ++\<^sub>f flds) s1) k = hash_at (c 0) s k ++\<^sub>f flds"
    using hash.sel_at_wr [OF a] by (simp add: hash_at_def)
  with hash.wr_getLocked_frame [OF a] show ?thesis
    by (simp add: HSet_eq a fmdom_notD fmlookup_dom_iff flip: fmlookup_dom_iff)
      (simp add: mem_fmdom_iff)
qed

theorem HSet_refines_witness:
  "\<exists>s'. HSet (\<lambda>_. 5) [] ''h'' (fmupd ''f'' ''3'' (fmupd ''g'' ''4'' fmempty)) sample_hash = Some (Inr 1, s') \<and>
     hash_at 5 s' ''h'' = fmupd ''f'' ''1'' fmempty ++\<^sub>f fmupd ''f'' ''3'' (fmupd ''g'' ''4'' fmempty)"
proof -
  let ?m = "fmupd ''f'' ''3'' (fmupd ''g'' ''4'' fmempty)"
  have n: "?m \<noteq> fmempty" by (rule fmupd_neq_empty)
  have "{f. f |\<in>| fmdom ?m \<and> f |\<notin>| fmdom (fmupd ''f'' ''1'' fmempty)} = {''g''}" by auto
  then have c: "card {f. f |\<in>| fmdom ?m \<and> f |\<notin>| fmdom (fmupd ''f'' ''1'' fmempty)} = 1"
    by (simp only: card.insert card.empty) simp
  from HSet_refines [OF sample_hash_ok(1) n sample_hash_ok(2), of "\<lambda>_. 5" "[]"]
  show ?thesis unfolding sample_hash_ok(3) c by (elim exE conjE) (intro exI conjI)
qed

text \<open>\<open>HDEL\<close> refines the removal of fields from the abstract hash: the reply counts the
  fields that were there, and a hash that becomes empty takes its key away.\<close>

theorem HDel_refines:
  assumes "wf_store s" "\<not> wrong_kind KindHash (c 0) s k"
  shows "fst (HDel c k fs s) = Inr (card {f \<in> set fs. f |\<in>| fmdom (hash_at (c 0) s k)}) \<and>
    hash_at (c 0) (snd (HDel c k fs s)) k = fmdrop_set (set fs) (hash_at (c 0) s k) \<and>
    (getLocked (c 0) (snd (HDel c k fs s)) k = None) =
      (fmdrop_set (set fs) (hash_at (c 0) s k) = fmempty) \<and>
    (\<forall>t k'. k' \<noteq> k \<longrightarrow> getLocked t (snd (HDel c k fs s)) k' = getLocked t s k')"
proof (cases "getLocked (c 0) s k")
  case None
  then have "hashOrWrongType (c 0) s k False = (Inr None, s)" "hash_at (c 0) s k = fmempty"
    by (simp_all add: hashOrWrongType_def hash_at_def)
  with None show ?thesis by (simp add: HDel_eq)
next
  case (Some e)
  with assms have k: "e_kind e = KindHash" and "wf_entry e"
    by (auto simp: wrong_kind_def dest: wf_getLocked)
  then obtain h where "e_hash e = Some h" by (auto simp: wf_entry_def)
  with Some k have a: "hashOrWrongType (c 0) s k False = (Inr (Some h), s)" and h: "hash_at (c 0) s k = h"
    by (simp_all add: hashOrWrongType_def hash_at_def)
  have w: "hash_at (c 0) (set_hash k h' s) k = h'" "getLocked (c 0) (set_hash k h' s) k \<noteq> None" for h'
    using hash.sel_at_wr [OF a, of h'] hash.getLocked_wr [OF a, of h'] by (auto simp: hash_at_def)
  have "hash_at (c 0) (delete_key k s') k = fmempty" for s' by (simp add: hash_at_def)
  with w hash.wr_getLocked_frame [OF a] show ?thesis
    by (simp add: HDel_eq a h Let_def mem_fmdom_iff)
qed

theorem HDel_refines_witness:
  "fst (HDel (\<lambda>_. 5) ''h'' [''f'', ''g''] sample_hash) = Inr 1 \<and>
   getLocked 5 (snd (HDel (\<lambda>_. 5) ''h'' [''f'', ''g''] sample_hash)) ''h'' = None"
proof -
  have "{f \<in> set [''f'', ''g'']. f |\<in>| fmdom (fmupd ''f'' ''1'' fmempty)} = {''f''}" by auto
  moreover have "fmdrop_set (set [''f'', ''g'']) (fmupd ''f'' ''1'' fmempty) = fmempty"
    by (rule fmap_ext) auto
  ultimately show ?thesis
    using HDel_refines [OF sample_hash_ok(1), of "\<lambda>_. 5" "''h''" "[''f'', ''g'']"]
    by (simp del: fmdrop_set_insert set_simps add: sample_hash_ok)
qed

text \<open>The reads of a hash are the reads of the abstract map: \<open>HGET\<close>, \<open>HMGET\<close>, \<open>HEXISTS\<close> and
  \<open>HLEN\<close> exactly, \<open>HKEYS\<close> up to its order, which is any order of the fields, each once.\<close>

theorem hash_reads:
  assumes "wf_store s" "\<not> wrong_kind KindHash (c 0) s k"
  shows "HGet c k f s = Inr (fmlookup (hash_at (c 0) s k) f) \<and>
    HMGet c k fs s = Inr (map (fmlookup (hash_at (c 0) s k)) fs) \<and>
    HExists c k f s = Inr (f |\<in>| fmdom (hash_at (c 0) s k)) \<and>
    HLen c k s = Inr (fcard (fmdom (hash_at (c 0) s k))) \<and>
    (\<exists>ks. HKeys c is k s = Inr ks \<and> distinct ks \<and> set ks = fset (fmdom (hash_at (c 0) s k)))"
  using hash_lookup [OF assms]
  by (auto simp: HGet_def HMGet_def HExists_def HLen_def HKeys_def mem_fmdom_iff)

theorem hash_reads_witness:
  "HGet (\<lambda>_. 5) ''h'' ''f'' sample_hash = Inr (Some ''1'') \<and> HLen (\<lambda>_. 5) ''h'' sample_hash = Inr 1"
  using hash_reads [OF sample_hash_ok(1), of "\<lambda>_. 5" "''h''" "''f''" "[]" "[]"]
  by (simp add: sample_hash_ok fcard.rep_eq)

text \<open>\<open>HINCRBY\<close>, unlike \<open>INCRBY\<close>, does not check for overflow: the new value is the sum
  wrapped to 64 bits, for every field that holds an integer.\<close>

theorem HIncrBy_wraps:
  assumes "wf_store s" "\<not> wrong_kind KindHash (c 0) s k"
    and "(case fmlookup (hash_at (c 0) s k) f of None \<Rightarrow> Some 0 | Some v \<Rightarrow> ParseInt v) = Some cur"
  shows "\<exists>s' r. HIncrBy c k f d s = Some (Inr r, s') \<and> sint r = wrap64 (sint cur + sint d) \<and>
    hash_at (c 0) s' k = fmupd f (FormatInt r) (hash_at (c 0) s k)"
proof -
  obtain s1 where a: "hashOrWrongType (c 0) s k True = (Inr (Some (hash_at (c 0) s k)), s1)"
    using hash_create [OF assms(1,2)] by blast
  have "hash_at (c 0) (set_hash k h' s1) k = h'" for h'
    using hash.sel_at_wr [OF a, of h'] by (simp add: hash_at_def)
  with assms(3) show ?thesis by (simp add: HIncrBy_def a Let_def sint_add64)
qed

theorem HIncrBy_wraps_witness:
  "\<exists>s' r. HIncrBy (\<lambda>_. 5) ''h'' ''f'' (word_of_int (2 ^ 63 - 1)) sample_hash = Some (Inr r, s') \<and>
     sint r = - (2 ^ 63)"
proof -
  have "ParseInt ''1'' = Some 1" by (simp add: ParseInt_def is_digit_def)
  moreover have "wrap64 (sint (1 :: int64) + sint (word_of_int (2 ^ 63 - 1) :: int64)) = - (2 ^ 63)"
    by (simp add: sint_of_int64 wrap64_def)
  ultimately show ?thesis
    using HIncrBy_wraps [OF sample_hash_ok(1), of "\<lambda>_. 5" "''h''" "''f''" 1 "word_of_int (2 ^ 63 - 1)"]
    by (auto simp: sample_hash_ok simp del: of_int_diff of_int_power)
qed

end
