(* ===== verification/SetStore.thy ===== *)
theory SetStore
  imports StringStore
begin

section \<open>Sets (internal/store/set.go)\<close>

text \<open>
  The set operations, on the same pattern as the hashes: \<open>setOrWrongType\<close> hands out the
  entry's own \<open>map[string]struct{}\<close>, here a finite set, and \<open>set_members\<close> writes it back.
\<close>

subsection \<open>Definitions\<close>

definition new_set :: entry where
  "new_set = (new_entry KindSet)\<lparr>e_set := Some {||}\<rparr>"

definition setOrWrongType ::
    "Time \<Rightarrow> Store \<Rightarrow> string \<Rightarrow> bool \<Rightarrow> (store_error + string fset option) \<times> Store" where
  "setOrWrongType t s key create =
     (case getLocked t s key of
        None \<Rightarrow>
          (if \<not> create then (Inr None, s) else (Inr (e_set new_set), put key new_set s))
      | Some e \<Rightarrow>
          (if e_kind e \<noteq> KindSet then (Inl ErrWrongType, s) else (Inr (e_set e), s)))"

definition set_members :: "string \<Rightarrow> string fset \<Rightarrow> Store \<Rightarrow> Store" where
  "set_members key m s =
     (case fmlookup (sdata s) key of None \<Rightarrow> s | Some e \<Rightarrow> put key (e\<lparr>e_set := Some m\<rparr>) s)"

definition sadd_member :: "string \<Rightarrow> nat \<times> string fset \<Rightarrow> nat \<times> string fset" where
  "sadd_member x st = (case st of (n, m) \<Rightarrow> if x |\<in>| m then (n, m) else (Suc n, finsert x m))"

definition SAdd ::
    "(nat \<Rightarrow> Time) \<Rightarrow> string \<Rightarrow> string list \<Rightarrow> Store \<Rightarrow> ((store_error + nat) \<times> Store) option" where
  "SAdd c key members s =
     (case setOrWrongType (c 0) s key True of
        (Inl err, s') \<Rightarrow> Some (Inl err, s')
      | (Inr None, s') \<Rightarrow> if members = [] then Some (Inr 0, s') else None
      | (Inr (Some m), s') \<Rightarrow>
          (let (n, m') = fold sadd_member members (0, m)
           in Some (Inr n, set_members key m' s')))"

definition srem_member :: "string \<Rightarrow> nat \<times> string fset \<Rightarrow> nat \<times> string fset" where
  "srem_member x st = (case st of (n, m) \<Rightarrow> if x |\<in>| m then (Suc n, m |-| {|x|}) else (n, m))"

definition SRem ::
    "(nat \<Rightarrow> Time) \<Rightarrow> string \<Rightarrow> string list \<Rightarrow> Store \<Rightarrow> (store_error + nat) \<times> Store" where
  "SRem c key members s =
     (case setOrWrongType (c 0) s key False of
        (Inl err, s') \<Rightarrow> (Inl err, s')
      | (Inr None, s') \<Rightarrow> (Inr 0, s')
      | (Inr (Some m), s') \<Rightarrow>
          (let (n, m') = fold srem_member members (0, m)
           in (Inr n, if m' = {||} then delete_key key (set_members key m' s')
                      else set_members key m' s')))"

definition SMembers :: "(nat \<Rightarrow> Time) \<Rightarrow> nat list \<Rightarrow> string \<Rightarrow> Store \<Rightarrow> store_error + string list" where
  "SMembers c is key s =
     (case fst (setOrWrongType (c 0) s key False) of
        Inl err \<Rightarrow> Inl err
      | Inr None \<Rightarrow> Inr []
      | Inr (Some m) \<Rightarrow> Inr (range_fset is m))"

definition SIsMember :: "(nat \<Rightarrow> Time) \<Rightarrow> string \<Rightarrow> string \<Rightarrow> Store \<Rightarrow> store_error + bool" where
  "SIsMember c key x s =
     (case fst (setOrWrongType (c 0) s key False) of
        Inl err \<Rightarrow> Inl err
      | Inr None \<Rightarrow> Inr False
      | Inr (Some m) \<Rightarrow> Inr (x |\<in>| m))"

definition SCard :: "(nat \<Rightarrow> Time) \<Rightarrow> string \<Rightarrow> Store \<Rightarrow> store_error + nat" where
  "SCard c key s =
     (case fst (setOrWrongType (c 0) s key False) of
        Inl err \<Rightarrow> Inl err
      | Inr None \<Rightarrow> Inr 0
      | Inr (Some m) \<Rightarrow> Inr (fcard m))"

subsection \<open>Typed access, the invariant\<close>

interpretation members: typed_container setOrWrongType KindSet new_set e_set
  "\<lambda>m. e_set_update (\<lambda>_. Some m)" set_members "\<lambda>m. m \<noteq> {||}"
  by unfold_locales
    (auto simp: setOrWrongType_def set_members_def new_set_def new_entry_def wf_entry_def
      split: option.splits)

lemma fold_sadd_member:
  "fold sadd_member xs (n, m) = (n + card (set xs - fset m), m |\<union>| fset_of_list xs)"
proof (induction xs arbitrary: n m)
  case (Cons x xs)
  show ?case
  proof (cases "x |\<in>| m")
    case True
    then have "set (x # xs) - fset m = set xs - fset m" and "m |\<union>| fset_of_list (x # xs) = m |\<union>| fset_of_list xs"
      by auto
    with True Cons show ?thesis by (simp add: sadd_member_def)
  next
    case False
    then have "set (x # xs) - fset m = insert x (set xs - fset (finsert x m))" by auto
    then have "card (set (x # xs) - fset m) = Suc (card (set xs - fset (finsert x m)))" by simp
    with False Cons show ?thesis by (simp add: sadd_member_def)
  qed
qed simp

lemma fold_srem_member:
  "fold srem_member xs (n, m) = (n + card (set xs \<inter> fset m), m |-| fset_of_list xs)"
proof (induction xs arbitrary: n m)
  case (Cons x xs)
  show ?case
  proof (cases "x |\<in>| m")
    case False
    then have "set (x # xs) \<inter> fset m = set xs \<inter> fset m" and "m |-| fset_of_list (x # xs) = m |-| fset_of_list xs"
      by auto
    with False Cons show ?thesis by (simp add: srem_member_def)
  next
    case True
    then have "set (x # xs) \<inter> fset m = insert x (set xs \<inter> fset (m |-| {|x|}))" by auto
    then have "card (set (x # xs) \<inter> fset m) = Suc (card (set xs \<inter> fset (m |-| {|x|})))" by simp
    moreover have "m |-| fset_of_list (x # xs) = (m |-| {|x|}) |-| fset_of_list xs" by auto
    ultimately show ?thesis using True Cons by (simp add: srem_member_def)
  qed
qed simp

lemma SAdd_eq:
  "SAdd c k xs s =
     (case setOrWrongType (c 0) s k True of
        (Inl err, s') \<Rightarrow> Some (Inl err, s')
      | (Inr None, s') \<Rightarrow> if xs = [] then Some (Inr 0, s') else None
      | (Inr (Some m), s') \<Rightarrow>
          Some (Inr (card (set xs - fset m)), set_members k (m |\<union>| fset_of_list xs) s'))"
  by (simp add: SAdd_def fold_sadd_member split: prod.split sum.split option.split)

lemma SRem_eq:
  "SRem c k xs s =
     (case setOrWrongType (c 0) s k False of
        (Inl err, s') \<Rightarrow> (Inl err, s')
      | (Inr None, s') \<Rightarrow> (Inr 0, s')
      | (Inr (Some m), s') \<Rightarrow>
          (Inr (card (set xs \<inter> fset m)),
           let m' = m |-| fset_of_list xs
           in if m' = {||} then delete_key k (set_members k m' s') else set_members k m' s'))"
  by (simp add: SRem_def fold_srem_member Let_def split: prod.split sum.split option.split)

lemma fset_of_list_nonempty: "xs \<noteq> [] \<Longrightarrow> m |\<union>| fset_of_list xs \<noteq> {||}"
  by (cases xs) auto

lemma SAdd_total:
  assumes "wf_store s" "xs \<noteq> []"
  shows "\<exists>r s'. SAdd c k xs s = Some (r, s') \<and> wf_store s'"
  using assms(1)
proof (cases rule: members.acc_create [where t = "c 0" and k = k])
  case (got m s')
  have "wf_store (set_members k (m |\<union>| fset_of_list xs) s')"
    using assms(1) got fset_of_list_nonempty [OF assms(2)] by (rule members.wf_wr)
  with got show ?thesis by (simp add: SAdd_eq)
qed (simp add: SAdd_eq assms(1))

lemma wf_SRem [wf_intros]: "wf_store s \<Longrightarrow> wf_store (snd (SRem c k xs s))"
  by (auto simp: SRem_eq Let_def members.acc_err intro: members.wf_wr members.wf_wr_delete
      dest: members.acc_readD split: prod.splits sum.splits option.splits)

lemma SAdd_err: "SAdd c k xs s = Some (Inl err, s') \<Longrightarrow> s' = s"
  by (auto simp: SAdd_eq members.acc_err split: prod.splits sum.splits option.splits if_splits)

lemma SRem_err: "SRem c k xs s = (Inl err, s') \<Longrightarrow> s' = s"
  by (auto simp: SRem_eq members.acc_err split: prod.splits sum.splits option.splits)

subsection \<open>Properties\<close>

definition set_at :: "Time \<Rightarrow> Store \<Rightarrow> string \<Rightarrow> string fset" where
  "set_at t s k = (case Option.bind (getLocked t s k) e_set of None \<Rightarrow> {||} | Some m \<Rightarrow> m)"

definition sample_set :: Store where
  "sample_set = put ''s'' (new_set\<lparr>e_set := Some {|''a'', ''b''|}\<rparr>) New"

lemma sample_set_ok:
  "wf_store sample_set" "\<not> wrong_kind KindSet t sample_set ''s''" "set_at t sample_set ''s'' = {|''a'', ''b''|}"
  by (auto simp: sample_set_def wrong_kind_def set_at_def new_set_def new_entry_def wf_entry_def
      expired_def IsZero_def intro!: wf_intros)

text \<open>C30: \<open>SADD\<close> refines set union: the reply counts the new members (one that is repeated in the
  arguments once), and no other key changes.\<close>

theorem SAdd_refines:
  assumes "wf_store s" "\<not> wrong_kind KindSet (c 0) s k"
  shows "\<exists>s'. SAdd c k xs s = Some (Inr (card (set xs - fset (set_at (c 0) s k))), s') \<and>
    set_at (c 0) s' k = set_at (c 0) s k |\<union>| fset_of_list xs \<and>
    (\<forall>t k'. k' \<noteq> k \<longrightarrow> getLocked t s' k' = getLocked t s k')"
proof -
  obtain s1 where a: "setOrWrongType (c 0) s k True = (Inr (Some (set_at (c 0) s k)), s1)"
    using members.acc_right(2) [OF assms] by (auto simp: set_at_def new_set_def cong: option.case_cong)
  have "set_at (c 0) (set_members k m s1) k = m" for m
    using members.sel_at_wr [OF a, of m] by (simp add: set_at_def)
  with members.wr_getLocked_frame [OF a] show ?thesis by (simp add: SAdd_eq a)
qed

theorem SAdd_refines_witness:
  "\<exists>s'. SAdd (\<lambda>_. 5) ''s'' [''b'', ''c'', ''c''] sample_set = Some (Inr 1, s') \<and>
     set_at 5 s' ''s'' = {|''a'', ''b'', ''c''|}"
proof -
  have "card (set [''b'', ''c'', ''c''] - fset {|''a'', ''b''|}) = 1" by (simp add: insert_Diff_if)
  moreover have "{|''a'', ''b''|} |\<union>| fset_of_list [''b'', ''c'', ''c''] = {|''a'', ''b'', ''c''|}" by auto
  ultimately show ?thesis
    using SAdd_refines [OF sample_set_ok(1,2), of "\<lambda>_. 5" "[''b'', ''c'', ''c'']"]
    unfolding sample_set_ok(3) by (simp only:) (elim exE conjE, intro exI conjI)
qed

text \<open>C31: \<open>SREM\<close> refines set difference: the reply counts the members that were there, and a set that
  becomes empty takes its key away; \<open>SISMEMBER\<close> and \<open>SCARD\<close> read the abstract set.\<close>

theorem SRem_refines:
  assumes "wf_store s" "\<not> wrong_kind KindSet (c 0) s k"
  shows "fst (SRem c k xs s) = Inr (card (set xs \<inter> fset (set_at (c 0) s k))) \<and>
    set_at (c 0) (snd (SRem c k xs s)) k = set_at (c 0) s k |-| fset_of_list xs \<and>
    (getLocked (c 0) (snd (SRem c k xs s)) k = None) = (set_at (c 0) s k |\<subseteq>| fset_of_list xs) \<and>
    SIsMember c k x s = Inr (x |\<in>| set_at (c 0) s k) \<and> SCard c k s = Inr (fcard (set_at (c 0) s k))"
proof (cases "getLocked (c 0) s k")
  case None
  then have "setOrWrongType (c 0) s k False = (Inr None, s)" "set_at (c 0) s k = {||}"
    by (simp_all add: setOrWrongType_def set_at_def)
  with None show ?thesis by (simp add: SRem_eq SIsMember_def SCard_def)
next
  case (Some e)
  with assms have k: "e_kind e = KindSet" and "wf_entry e"
    by (auto simp: wrong_kind_def dest: wf_getLocked)
  then obtain m where "e_set e = Some m" by (auto simp: wf_entry_def)
  with Some k have a: "setOrWrongType (c 0) s k False = (Inr (Some m), s)" and m: "set_at (c 0) s k = m"
    by (simp_all add: setOrWrongType_def set_at_def)
  have w: "set_at (c 0) (set_members k m' s) k = m'" "getLocked (c 0) (set_members k m' s) k \<noteq> None" for m'
    using members.sel_at_wr [OF a, of m'] members.getLocked_wr [OF a, of m'] by (auto simp: set_at_def)
  have "set_at (c 0) (delete_key k s') k = {||}" for s' by (simp add: set_at_def)
  with w show ?thesis by (auto simp: SRem_eq a m Let_def SIsMember_def SCard_def)
qed

theorem SRem_refines_witness:
  "fst (SRem (\<lambda>_. 5) ''s'' [''a'', ''b'', ''z''] sample_set) = Inr 2 \<and>
   getLocked 5 (snd (SRem (\<lambda>_. 5) ''s'' [''a'', ''b'', ''z''] sample_set)) ''s'' = None"
  using SRem_refines [OF sample_set_ok(1,2), of "\<lambda>_. 5" "[''a'', ''b'', ''z'']" "''a''"]
  by (simp add: sample_set_ok insert_ident Int_insert_left)

end
