(* ===== verification/ListStore.thy ===== *)
theory ListStore
  imports StringStore
begin

section \<open>Lists (internal/store/list.go)\<close>

text \<open>
  The list operations. An index is an \<open>int\<close>: the code only adds the length of a list to
  a negative index, which cannot leave the range of the machine type, so indices are
  unbounded integers here (lemma \<open>clampIndex_in_int64\<close>).
\<close>

subsection \<open>Definitions\<close>

definition listOrWrongType ::
    "Time \<Rightarrow> Store \<Rightarrow> string \<Rightarrow> bool \<Rightarrow> (store_error + entry option) \<times> Store" where
  "listOrWrongType t s key create =
     (case getLocked t s key of
        None \<Rightarrow>
          (if \<not> create then (Inr None, s)
           else (Inr (Some (new_entry KindList)), put key (new_entry KindList) s))
      | Some e \<Rightarrow>
          (if e_kind e \<noteq> KindList then (Inl ErrWrongType, s) else (Inr (Some e), s)))"

definition LPush ::
    "(nat \<Rightarrow> Time) \<Rightarrow> string \<Rightarrow> string list \<Rightarrow> Store \<Rightarrow> ((store_error + nat) \<times> Store) option" where
  "LPush c key vals s =
     (case listOrWrongType (c 0) s key True of
        (Inl err, s') \<Rightarrow> Some (Inl err, s')
      | (Inr None, s') \<Rightarrow> None
      | (Inr (Some e), s') \<Rightarrow>
          (let l = fold (\<lambda>v l. v # l) vals (e_list e)
           in Some (Inr (length l), put key (e\<lparr>e_list := l\<rparr>) s')))"

definition RPush ::
    "(nat \<Rightarrow> Time) \<Rightarrow> string \<Rightarrow> string list \<Rightarrow> Store \<Rightarrow> ((store_error + nat) \<times> Store) option" where
  "RPush c key vals s =
     (case listOrWrongType (c 0) s key True of
        (Inl err, s') \<Rightarrow> Some (Inl err, s')
      | (Inr None, s') \<Rightarrow> None
      | (Inr (Some e), s') \<Rightarrow>
          (let l = e_list e @ vals
           in Some (Inr (length l), put key (e\<lparr>e_list := l\<rparr>) s')))"

definition LPop :: "(nat \<Rightarrow> Time) \<Rightarrow> string \<Rightarrow> Store \<Rightarrow> (store_error + string option) \<times> Store" where
  "LPop c key s =
     (case listOrWrongType (c 0) s key False of
        (Inl err, s') \<Rightarrow> (Inl err, s')
      | (Inr None, s') \<Rightarrow> (Inr None, s')
      | (Inr (Some e), s') \<Rightarrow>
          (case e_list e of
             [] \<Rightarrow> (Inr None, s')
           | v # l \<Rightarrow>
               (let s'' = put key (e\<lparr>e_list := l\<rparr>) s'
                in (Inr (Some v), if l = [] then delete_key key s'' else s''))))"

definition RPop :: "(nat \<Rightarrow> Time) \<Rightarrow> string \<Rightarrow> Store \<Rightarrow> (store_error + string option) \<times> Store" where
  "RPop c key s =
     (case listOrWrongType (c 0) s key False of
        (Inl err, s') \<Rightarrow> (Inl err, s')
      | (Inr None, s') \<Rightarrow> (Inr None, s')
      | (Inr (Some e), s') \<Rightarrow>
          (let n = length (e_list e)
           in if n = 0 then (Inr None, s')
              else (let v = e_list e ! (n - 1); l = take (n - 1) (e_list e);
                        s'' = put key (e\<lparr>e_list := l\<rparr>) s'
                    in (Inr (Some v), if l = [] then delete_key key s'' else s''))))"

definition LLen :: "(nat \<Rightarrow> Time) \<Rightarrow> string \<Rightarrow> Store \<Rightarrow> store_error + nat" where
  "LLen c key s =
     (case fst (listOrWrongType (c 0) s key False) of
        Inl err \<Rightarrow> Inl err
      | Inr None \<Rightarrow> Inr 0
      | Inr (Some e) \<Rightarrow> Inr (length (e_list e)))"

definition clampIndex :: "int \<Rightarrow> int \<Rightarrow> int" where
  "clampIndex idx n =
     (if idx < 0 then (let idx' = idx + n in if idx' < 0 then 0 else idx') else idx)"

text \<open>
  The common index arithmetic of \<open>LRange\<close> and \<open>ZRange\<close>: the slice \<open>xs[start : stop+1]\<close>
  after clamping.
\<close>

definition range_slice :: "int \<Rightarrow> int \<Rightarrow> 'a list \<Rightarrow> 'a list" where
  "range_slice start0 stop0 xs =
     (let n = int (length xs);
          start = clampIndex start0 n;
          stop1 = clampIndex stop0 n;
          stop = (if stop1 \<ge> n then n - 1 else stop1)
      in if start > stop \<or> start \<ge> n \<or> n = 0 then []
         else take (nat (stop + 1 - start)) (drop (nat start) xs))"

definition LRange :: "(nat \<Rightarrow> Time) \<Rightarrow> string \<Rightarrow> int \<Rightarrow> int \<Rightarrow> Store \<Rightarrow> store_error + string list" where
  "LRange c key start stop s =
     (case fst (listOrWrongType (c 0) s key False) of
        Inl err \<Rightarrow> Inl err
      | Inr None \<Rightarrow> Inr []
      | Inr (Some e) \<Rightarrow> Inr (range_slice start stop (e_list e)))"

definition LIndex :: "(nat \<Rightarrow> Time) \<Rightarrow> string \<Rightarrow> int \<Rightarrow> Store \<Rightarrow> store_error + string option" where
  "LIndex c key idx s =
     (case fst (listOrWrongType (c 0) s key False) of
        Inl err \<Rightarrow> Inl err
      | Inr None \<Rightarrow> Inr None
      | Inr (Some e) \<Rightarrow>
          (let n = int (length (e_list e));
               i = (if idx < 0 then idx + n else idx)
           in if i < 0 \<or> i \<ge> n then Inr None else Inr (Some (e_list e ! nat i))))"

subsection \<open>Typed access, the invariant\<close>

interpretation list: typed_lookup listOrWrongType KindList "new_entry KindList" Some
  by unfold_locales (auto simp: listOrWrongType_def new_entry_def split: option.splits)

lemma wf_list_update:
  "wf_entry e \<or> e = new_entry KindList \<Longrightarrow> e_kind e = KindList \<Longrightarrow> l \<noteq> [] \<Longrightarrow> wf_entry (e\<lparr>e_list := l\<rparr>)"
  by (auto simp: wf_entry_def new_entry_def)

lemma wf_put_list:
  assumes "wf_store s" "listOrWrongType t s k b = (Inr (Some e), s')" "l \<noteq> []"
  shows "wf_store (put k (e\<lparr>e_list := l\<rparr>) s')"
  using assms(2)
proof (cases rule: list.acc_Some)
  case (found e')
  with assms show ?thesis by (auto intro!: wf_put wf_list_update dest: wf_getLocked)
next
  case created
  then have eq: "put k (e\<lparr>e_list := l\<rparr>) s' = put k (e\<lparr>e_list := l\<rparr>) s" by (simp add: put_def)
  from created assms(3) have "wf_entry (e\<lparr>e_list := l\<rparr>)"
    by (intro wf_list_update) auto
  with eq assms(1) show ?thesis by (simp add: wf_put)
qed

lemma fold_Cons_nonempty: "xs \<noteq> [] \<Longrightarrow> fold (\<lambda>v l. v # l) xs ys \<noteq> []"
  by (simp add: fold_Cons_rev)

lemma LPush_total:
  assumes "wf_store s" "vs \<noteq> []"
  shows "\<exists>r s'. LPush c k vs s = Some (r, s') \<and> wf_store s'"
  using assms(1)
proof (cases rule: list.acc_create [where t = "c 0" and k = k])
  case (got e s')
  with assms show ?thesis
    by (auto simp: LPush_def Let_def intro!: wf_put_list fold_Cons_nonempty)
qed (simp add: LPush_def assms(1))

lemma RPush_total:
  assumes "wf_store s" "vs \<noteq> []"
  shows "\<exists>r s'. RPush c k vs s = Some (r, s') \<and> wf_store s'"
  using assms(1)
proof (cases rule: list.acc_create [where t = "c 0" and k = k])
  case (got e s')
  with assms show ?thesis
    by (auto simp: RPush_def Let_def intro!: wf_put_list)
qed (simp add: RPush_def assms(1))

lemma delete_put [simp]: "delete_key k (put k e s) = delete_key k s"
  by (simp add: delete_key_def put_def fmdrop_fmupd_same)

lemma wf_LPop [wf_intros]: "wf_store s \<Longrightarrow> wf_store (snd (LPop c k s))"
  by (auto simp: LPop_def Let_def list.acc_err intro: wf_put_list wf_delete_key
      dest: list.acc_readD split: prod.splits sum.splits option.splits list.splits)

lemma wf_RPop [wf_intros]: "wf_store s \<Longrightarrow> wf_store (snd (RPop c k s))"
  by (auto simp: RPop_def Let_def list.acc_err intro: wf_put_list wf_delete_key
      dest: list.acc_readD split: prod.splits sum.splits option.splits)

lemma LPush_err: "LPush c k vs s = Some (Inl err, s') \<Longrightarrow> s' = s"
  by (auto simp: LPush_def Let_def list.acc_err split: prod.splits sum.splits option.splits)

lemma RPush_err: "RPush c k vs s = Some (Inl err, s') \<Longrightarrow> s' = s"
  by (auto simp: RPush_def Let_def list.acc_err split: prod.splits sum.splits option.splits)

lemma LPop_err: "LPop c k s = (Inl err, s') \<Longrightarrow> s' = s"
  by (auto simp: LPop_def Let_def list.acc_err split: prod.splits sum.splits option.splits list.splits)

lemma RPop_err: "RPop c k s = (Inl err, s') \<Longrightarrow> s' = s"
  by (auto simp: RPop_def Let_def list.acc_err split: prod.splits sum.splits option.splits if_splits)

subsection \<open>Indices\<close>

text \<open>No index computation of \<open>list.go\<close> leaves the range of a Go \<open>int\<close>.\<close>

lemma clampIndex_in_int64:
  "in_int64 idx \<Longrightarrow> 0 \<le> n \<Longrightarrow> in_int64 n \<Longrightarrow> in_int64 (clampIndex idx n) \<and> (idx < 0 \<longrightarrow> in_int64 (idx + n))"
  by (auto simp: clampIndex_def in_int64_def Let_def)

lemma clampIndex_eq: "clampIndex i n = (if i < 0 then max 0 (i + n) else i)"
  by (simp add: clampIndex_def Let_def)

lemma clampIndex_nonneg: "0 \<le> clampIndex i n"
  by (simp add: clampIndex_eq)

lemma take_drop_upt: "j \<le> length xs \<Longrightarrow> take (j - i) (drop i xs) = map ((!) xs) [i..<j]"
  by (rule nth_equalityI) auto

lemma filter_upt_between: "filter (\<lambda>i. a \<le> int i \<and> int i \<le> b) [0..<n] = [nat a..<min n (nat (b + 1))]"
proof (induction n)
  case (Suc n)
  consider "b < int n" | "int n < a" "int n \<le> b" | "a \<le> int n" "int n \<le> b" by linarith
  then show ?case
  proof cases
    case 1
    then have "min (Suc n) (nat (b + 1)) = min n (nat (b + 1))" by simp
    with 1 Suc show ?thesis by simp
  next
    case 2
    with Suc show ?thesis by (simp add: min_def)
  next
    case 3
    then have "nat a \<le> n" "Suc n \<le> nat (b + 1)" by linarith+
    with 3 Suc show ?thesis by (simp add: min_def)
  qed
qed simp

lemma range_slice_eq:
  "range_slice a b xs =
     map ((!) xs) (filter (\<lambda>i. clampIndex a (int (length xs)) \<le> int i \<and> int i \<le> clampIndex b (int (length xs)))
       [0..<length xs])"
proof -
  define n lo hi where "n = int (length xs)" "lo = clampIndex a n" "hi = clampIndex b n"
  have nn: "0 \<le> lo" "0 \<le> hi" by (simp_all add: n_lo_hi_def clampIndex_nonneg)
  define h where "h = (if hi \<ge> n then n - 1 else hi)"
  have j: "min (length xs) (nat (hi + 1)) = nat (h + 1)" using nn by (auto simp: h_def n_lo_hi_def(1))
  have eq: "range_slice a b xs =
      (if lo > h \<or> lo \<ge> n \<or> n = 0 then [] else take (nat (h + 1 - lo)) (drop (nat lo) xs))"
    by (simp add: range_slice_def Let_def h_def n_lo_hi_def)
  have "range_slice a b xs = map ((!) xs) [nat lo..<nat (h + 1)]"
  proof (cases "lo > h \<or> lo \<ge> n \<or> n = 0")
    case True
    then have "[nat lo..<nat (h + 1)] = []" using nn by (auto simp: h_def)
    with True show ?thesis by (simp add: eq)
  next
    case False
    then have "nat (h + 1) \<le> length xs" "nat (h + 1 - lo) = nat (h + 1) - nat lo"
      using nn by (auto simp: h_def n_lo_hi_def(1))
    with False take_drop_upt [of "nat (h + 1)" xs "nat lo"] show ?thesis by (simp add: eq)
  qed
  with j show ?thesis by (simp add: filter_upt_between flip: n_lo_hi_def)
qed

subsection \<open>Properties\<close>

definition list_at :: "Time \<Rightarrow> Store \<Rightarrow> string \<Rightarrow> string list" where
  "list_at t s k = (case getLocked t s k of None \<Rightarrow> [] | Some e \<Rightarrow> e_list e)"

lemma fold_Cons_rev: "fold (\<lambda>v l. v # l) vs l = rev vs @ l"
  by (induction vs arbitrary: l) simp_all

lemma list_push:
  assumes "wf_store s" "\<not> wrong_kind KindList t s k"
  shows "\<exists>e s'. listOrWrongType t s k True = (Inr (Some e), s') \<and> e_list e = list_at t s k \<and> \<not> expired e t \<and>
    (\<forall>t' k'. k' \<noteq> k \<longrightarrow> getLocked t' s' k' = getLocked t' s k')"
proof (cases "getLocked t s k")
  case None
  then show ?thesis by (auto simp: listOrWrongType_def list_at_def new_entry_def expired_def IsZero_def)
next
  case (Some e)
  with assms show ?thesis
    by (auto simp: listOrWrongType_def list_at_def wrong_kind_def dest: getLocked_SomeD)
qed

text \<open>C27: \<open>LPUSH\<close> puts its values in front, the last one first, \<open>RPUSH\<close> behind; both return the new
  length and touch no other key.\<close>

theorem push_refines:
  assumes "wf_store s" "\<not> wrong_kind KindList (c 0) s k"
  shows "(\<exists>s'. LPush c k vs s = Some (Inr (length vs + length (list_at (c 0) s k)), s') \<and>
      list_at (c 0) s' k = rev vs @ list_at (c 0) s k \<and>
      (\<forall>t k'. k' \<noteq> k \<longrightarrow> getLocked t s' k' = getLocked t s k')) \<and>
    (\<exists>s'. RPush c k vs s = Some (Inr (length (list_at (c 0) s k) + length vs), s') \<and>
      list_at (c 0) s' k = list_at (c 0) s k @ vs \<and>
      (\<forall>t k'. k' \<noteq> k \<longrightarrow> getLocked t s' k' = getLocked t s k'))"
proof -
  obtain e s1 where e: "listOrWrongType (c 0) s k True = (Inr (Some e), s1)" "e_list e = list_at (c 0) s k"
      "\<not> expired e (c 0)" "\<forall>t' k'. k' \<noteq> k \<longrightarrow> getLocked t' s1 k' = getLocked t' s k'"
    using list_push [OF assms] by blast
  moreover have "\<not> expired (e\<lparr>e_list := l\<rparr>) (c 0)" for l using e(3) by (simp add: expired_def)
  ultimately show ?thesis
    by (simp add: LPush_def RPush_def Let_def fold_Cons_rev list_at_def)
qed

definition sample_list :: Store where
  "sample_list = put ''l'' ((new_entry KindList)\<lparr>e_list := [''a'', ''b'', ''c'']\<rparr>) New"

lemma sample_list_ok:
  "wf_store sample_list" "\<not> wrong_kind KindList t sample_list ''l''"
  "list_at t sample_list ''l'' = [''a'', ''b'', ''c'']"
  by (auto simp: sample_list_def wrong_kind_def list_at_def new_entry_def wf_entry_def
      expired_def IsZero_def intro!: wf_intros)

theorem push_refines_witness:
  "\<exists>s'. LPush (\<lambda>_. 5) ''l'' [''x'', ''y''] sample_list = Some (Inr 5, s') \<and>
     list_at 5 s' ''l'' = [''y'', ''x'', ''a'', ''b'', ''c'']"
  using push_refines [OF sample_list_ok(1,2), of "\<lambda>_. 5" "[''x'', ''y'']"]
  unfolding sample_list_ok(3) by (elim conjE exE) (intro exI conjI, simp_all)

text \<open>C28: \<open>LPOP\<close> and \<open>RPOP\<close> return the first and the last element and remove it; an empty or missing
  list gives nothing and changes nothing, and a list that becomes empty takes its key away.\<close>

theorem pop_refines:
  assumes "wf_store s" "\<not> wrong_kind KindList (c 0) s k"
  shows "(if list_at (c 0) s k = [] then LPop c k s = (Inr None, s) \<and> RPop c k s = (Inr None, s)
    else fst (LPop c k s) = Inr (Some (hd (list_at (c 0) s k))) \<and>
      list_at (c 0) (snd (LPop c k s)) k = tl (list_at (c 0) s k) \<and>
      (getLocked (c 0) (snd (LPop c k s)) k = None) = (tl (list_at (c 0) s k) = []) \<and>
      fst (RPop c k s) = Inr (Some (last (list_at (c 0) s k))) \<and>
      list_at (c 0) (snd (RPop c k s)) k = butlast (list_at (c 0) s k) \<and>
      (getLocked (c 0) (snd (RPop c k s)) k = None) = (butlast (list_at (c 0) s k) = []))"
proof (cases "getLocked (c 0) s k")
  case None
  then show ?thesis by (simp add: list_at_def LPop_def RPop_def listOrWrongType_def)
next
  case (Some e)
  with assms have k: "e_kind e = KindList" "\<not> expired e (c 0)"
    by (auto simp: wrong_kind_def dest: getLocked_SomeD)
  have "e_list e \<noteq> []" using wf_getLocked [OF assms(1) Some] k(1) by (simp add: wf_entry_def)
  moreover have "\<not> expired (e\<lparr>e_list := l\<rparr>) (c 0)" for l using k(2) by (simp add: expired_def)
  ultimately show ?thesis
    using Some k
    by (cases "e_list e") (auto simp: list_at_def LPop_def RPop_def listOrWrongType_def Let_def last_conv_nth
        butlast_conv_take)
qed

theorem pop_refines_witness: "fst (RPop (\<lambda>_. 5) ''l'' sample_list) = Inr (Some ''c'')"
  using pop_refines [OF sample_list_ok(1,2), of "\<lambda>_. 5"] by (simp add: sample_list_ok)

text \<open>C29: \<open>LRANGE\<close> returns, in order, exactly the elements whose index lies between the two bounds,
  both included and each clamped, so it never reads out of range (the stop is floored at 0 like the
  start, so a stop before the head still gives the first element, where Redis gives none); \<open>LINDEX\<close> returns the element at an
  index counted from the head or, if negative, from the tail.\<close>

theorem range_reads:
  assumes "wf_store s" "\<not> wrong_kind KindList (c 0) s k"
  shows "LRange c k a b s = Inr (let xs = list_at (c 0) s k; n = int (length xs) in
      map ((!) xs) (filter (\<lambda>i. (if a < 0 then max 0 (a + n) else a) \<le> int i \<and>
        int i \<le> (if b < 0 then max 0 (b + n) else b)) [0..<length xs])) \<and>
    LIndex c k a s = Inr (let xs = list_at (c 0) s k; i = (if a < 0 then a + int (length xs) else a) in
      if 0 \<le> i \<and> i < int (length xs) then Some (xs ! nat i) else None)"
proof (cases "getLocked (c 0) s k")
  case None
  then show ?thesis by (simp add: LRange_def LIndex_def listOrWrongType_def list_at_def)
next
  case (Some e)
  with assms have "e_kind e = KindList" by (simp add: wrong_kind_def)
  with Some show ?thesis
    by (simp add: LRange_def LIndex_def listOrWrongType_def list_at_def range_slice_eq clampIndex_eq Let_def)
qed

theorem range_reads_witness: "LRange (\<lambda>_. 5) ''l'' (- 2) (- 1) sample_list = Inr [''b'', ''c'']"
  using range_reads [OF sample_list_ok(1,2), of "\<lambda>_. 5" "- 2" "- 1"]
  by (simp add: sample_list_ok)

text \<open>A stop index before the head of a non-empty list is clamped to 0, so \<open>LRANGE\<close> from 0 to it
  returns the first element, where Redis returns nothing.\<close>

theorem LRange_stop_before_head:
  assumes "wf_store s" "\<not> wrong_kind KindList (c 0) s k" "list_at (c 0) s k = x # xs"
    and "b < - int (length (x # xs))"
  shows "LRange c k 0 b s = Inr [x]"
proof (cases "getLocked (c 0) s k")
  case (Some e)
  with assms show ?thesis
    by (simp add: LRange_def listOrWrongType_def list_at_def wrong_kind_def range_slice_def clampIndex_eq)
qed (use assms in \<open>simp add: list_at_def\<close>)

theorem LRange_stop_before_head_witness: "LRange (\<lambda>_. 5) ''l'' 0 (- 100) sample_list = Inr [''a'']"
  by (rule LRange_stop_before_head [OF sample_list_ok(1,2,3)]) simp

end
