(* ===== verification/ZSetStore.thy ===== *)
theory ZSetStore
  imports ListStore
begin

section \<open>Sorted sets (internal/store/zset.go)\<close>

text \<open>
  The sorted-set operations: a map from members to scores, sorted on every read by score
  and then by member name. A score is a \<open>float64\<close>; a NaN score breaks the order the sort
  needs, so the theorems on ranks and ranges ask that the set hold none.
\<close>

subsection \<open>Definitions\<close>

record ZMember =
  Member :: string
  Score :: float64

text \<open>The less-function that \<open>sorted\<close> passes to \<open>sort.Slice\<close>.\<close>

definition zless :: "ZMember \<Rightarrow> ZMember \<Rightarrow> bool" where
  "zless a b = (if \<not> f64_eq (Score a) (Score b) then f64_less (Score a) (Score b)
                else Member a < Member b)"

definition zmembers :: "nat list \<Rightarrow> zset \<Rightarrow> ZMember list" where
  "zmembers is z =
     List.map_filter
       (\<lambda>m. map_option (\<lambda>sc. \<lparr>Member = m, Score = sc\<rparr>) (fmlookup (scores z) m))
       (range_keys is (scores z))"

definition zsorted :: "nat list \<Rightarrow> zset \<Rightarrow> ZMember list" where
  "zsorted is z = sort_Slice zless (zmembers is z)"

definition new_zset :: entry where
  "new_zset = (new_entry KindZSet)\<lparr>e_zset := Some \<lparr>scores = fmempty\<rparr>\<rparr>"

definition zsetOrWrongType ::
    "Time \<Rightarrow> Store \<Rightarrow> string \<Rightarrow> bool \<Rightarrow> (store_error + zset option) \<times> Store" where
  "zsetOrWrongType t s key create =
     (case getLocked t s key of
        None \<Rightarrow>
          (if \<not> create then (Inr None, s) else (Inr (e_zset new_zset), put key new_zset s))
      | Some e \<Rightarrow>
          (if e_kind e \<noteq> KindZSet then (Inl ErrWrongType, s) else (Inr (e_zset e), s)))"

definition set_scores :: "string \<Rightarrow> (string, float64) fmap \<Rightarrow> Store \<Rightarrow> Store" where
  "set_scores key m s =
     (case fmlookup (sdata s) key of
        None \<Rightarrow> s
      | Some e \<Rightarrow> put key (e\<lparr>e_zset := Some \<lparr>scores = m\<rparr>\<rparr>) s)"

text \<open>A nil \<open>*zset\<close> would be dereferenced by the loop: a panic, unless there is nothing to add.\<close>

definition ZAdd ::
    "(nat \<Rightarrow> Time) \<Rightarrow> nat list \<Rightarrow> string \<Rightarrow> (string, float64) fmap \<Rightarrow> Store
     \<Rightarrow> ((store_error + nat) \<times> Store) option" where
  "ZAdd c is key members s =
     (case zsetOrWrongType (c 0) s key True of
        (Inl err, s') \<Rightarrow> Some (Inl err, s')
      | (Inr None, s') \<Rightarrow> if range_keys is members = [] then Some (Inr 0, s') else None
      | (Inr (Some z), s') \<Rightarrow>
          (let (added, m') = fold (assign_entry members) (range_keys is members) (0, scores z)
           in Some (Inr added, set_scores key m' s')))"

definition ZScore :: "(nat \<Rightarrow> Time) \<Rightarrow> string \<Rightarrow> string \<Rightarrow> Store \<Rightarrow> store_error + float64 option" where
  "ZScore c key m s =
     (case fst (zsetOrWrongType (c 0) s key False) of
        Inl err \<Rightarrow> Inl err
      | Inr None \<Rightarrow> Inr None
      | Inr (Some z) \<Rightarrow> Inr (fmlookup (scores z) m))"

definition ZRem ::
    "(nat \<Rightarrow> Time) \<Rightarrow> string \<Rightarrow> string list \<Rightarrow> Store \<Rightarrow> (store_error + nat) \<times> Store" where
  "ZRem c key members s =
     (case zsetOrWrongType (c 0) s key False of
        (Inl err, s') \<Rightarrow> (Inl err, s')
      | (Inr None, s') \<Rightarrow> (Inr 0, s')
      | (Inr (Some z), s') \<Rightarrow>
          (let (n, m') = fold remove_entry members (0, scores z)
           in (Inr n, if fmdom m' = {||} then delete_key key (set_scores key m' s')
                      else set_scores key m' s')))"

definition ZCard :: "(nat \<Rightarrow> Time) \<Rightarrow> string \<Rightarrow> Store \<Rightarrow> store_error + nat" where
  "ZCard c key s =
     (case fst (zsetOrWrongType (c 0) s key False) of
        Inl err \<Rightarrow> Inl err
      | Inr None \<Rightarrow> Inr 0
      | Inr (Some z) \<Rightarrow> Inr (fcard (fmdom (scores z))))"

text \<open>The search loop of \<open>ZRank\<close>, from index \<open>i\<close>.\<close>

fun find_rank :: "string \<Rightarrow> nat \<Rightarrow> ZMember list \<Rightarrow> nat option" where
  "find_rank m i [] = None"
| "find_rank m i (sm # rest) = (if Member sm = m then Some i else find_rank m (Suc i) rest)"

definition ZRank :: "(nat \<Rightarrow> Time) \<Rightarrow> nat list \<Rightarrow> string \<Rightarrow> string \<Rightarrow> Store \<Rightarrow> store_error + nat option" where
  "ZRank c is key m s =
     (case fst (zsetOrWrongType (c 0) s key False) of
        Inl err \<Rightarrow> Inl err
      | Inr None \<Rightarrow> Inr None
      | Inr (Some z) \<Rightarrow>
          (if fmlookup (scores z) m = None then Inr None
           else Inr (find_rank m 0 (zsorted is z))))"

definition ZRange ::
    "(nat \<Rightarrow> Time) \<Rightarrow> nat list \<Rightarrow> string \<Rightarrow> int \<Rightarrow> int \<Rightarrow> Store \<Rightarrow> store_error + ZMember list" where
  "ZRange c is key start stop s =
     (case fst (zsetOrWrongType (c 0) s key False) of
        Inl err \<Rightarrow> Inl err
      | Inr None \<Rightarrow> Inr []
      | Inr (Some z) \<Rightarrow> Inr (range_slice start stop (zsorted is z)))"

subsection \<open>Typed access, the invariant\<close>

lemma zset_eta [simp]: "\<lparr>scores = scores z\<rparr> = (z :: zset)"
  by simp

interpretation zset: typed_container zsetOrWrongType KindZSet new_zset e_zset
  "\<lambda>z. e_zset_update (\<lambda>_. Some z)" "\<lambda>k z. set_scores k (scores z)" "\<lambda>z. scores z \<noteq> fmempty"
  by unfold_locales
    (auto simp: zsetOrWrongType_def set_scores_def new_zset_def new_entry_def wf_entry_def
      split: option.splits)

lemma ZAdd_eq:
  "ZAdd c is k ms s =
     (case zsetOrWrongType (c 0) s k True of
        (Inl err, s') \<Rightarrow> Some (Inl err, s')
      | (Inr None, s') \<Rightarrow> if ms = fmempty then Some (Inr 0, s') else None
      | (Inr (Some z), s') \<Rightarrow>
          Some (Inr (card {m. m |\<in>| fmdom ms \<and> fmlookup (scores z) m = None}),
                set_scores k (scores z ++\<^sub>f ms) s'))"
  by (simp add: ZAdd_def range_keys_empty_iff fold_assign_range
      split: prod.split sum.split option.split)

lemma ZRem_eq:
  "ZRem c k ms s =
     (case zsetOrWrongType (c 0) s k False of
        (Inl err, s') \<Rightarrow> (Inl err, s')
      | (Inr None, s') \<Rightarrow> (Inr 0, s')
      | (Inr (Some z), s') \<Rightarrow>
          (Inr (card {m \<in> set ms. fmlookup (scores z) m \<noteq> None}),
           let z' = fmdrop_set (set ms) (scores z)
           in if z' = fmempty then delete_key k (set_scores k z' s') else set_scores k z' s'))"
  by (simp add: ZRem_def fmdom_empty_iff fold_remove_entry Let_def
      split: prod.split sum.split option.split)

lemma wf_set_scores:
  "wf_store s \<Longrightarrow> zsetOrWrongType t s k b = (Inr (Some z), s') \<Longrightarrow> m \<noteq> fmempty \<Longrightarrow> wf_store (set_scores k m s')"
  using zset.wf_wr [of s t k b z s' "\<lparr>scores = m\<rparr>"] by simp

lemma wf_delete_scores:
  "wf_store s \<Longrightarrow> zsetOrWrongType t s k b = (r, s') \<Longrightarrow> wf_store (delete_key k (set_scores k m s'))"
  using zset.wf_wr_delete [of s t k b r s' "\<lparr>scores = m\<rparr>"] by simp

lemma ZAdd_total:
  assumes "wf_store s" "ms \<noteq> fmempty"
  shows "\<exists>r s'. ZAdd c is k ms s = Some (r, s') \<and> wf_store s'"
  using assms(1)
proof (cases rule: zset.acc_create [where t = "c 0" and k = k])
  case (got z s')
  with assms show ?thesis by (auto simp: ZAdd_eq intro: wf_set_scores)
qed (simp add: ZAdd_eq assms(1))

lemma wf_ZRem [wf_intros]: "wf_store s \<Longrightarrow> wf_store (snd (ZRem c k ms s))"
  by (auto simp: ZRem_eq Let_def zset.acc_err intro: wf_set_scores wf_delete_scores
      dest: zset.acc_readD split: prod.splits sum.splits option.splits)

lemma ZAdd_err: "ZAdd c is k ms s = Some (Inl err, s') \<Longrightarrow> s' = s"
  by (auto simp: ZAdd_eq zset.acc_err split: prod.splits sum.splits option.splits if_splits)

lemma ZRem_err: "ZRem c k ms s = (Inl err, s') \<Longrightarrow> s' = s"
  by (auto simp: ZRem_eq zset.acc_err split: prod.splits sum.splits option.splits)

subsection \<open>The order of the members\<close>

text \<open>The members of a score map that have a comparable score.\<close>

definition scored :: "(string, float64) fmap \<Rightarrow> ZMember set" where
  "scored sc = {m. fmlookup sc (Member m) = Some (Score m) \<and> \<not> f64_nan (Score m)}"

definition nan_free :: "(string, float64) fmap \<Rightarrow> bool" where
  "nan_free sc \<longleftrightarrow> fmpred (\<lambda>_ x. \<not> f64_nan x) sc"

text \<open>
  The order that the members are meant to have, stated without the comparator of the code:
  increasing scores (\<open>f64_key\<close> numbers the doubles in their order, both zeros as 0), and
  increasing names among equal scores.
\<close>

definition zbefore :: "ZMember \<Rightarrow> ZMember \<Rightarrow> bool" where
  "zbefore m m' \<longleftrightarrow> f64_key (Score m) < f64_key (Score m') \<or>
     f64_key (Score m) = f64_key (Score m') \<and> Member m < Member m'"

lemma zless_before: "m \<in> scored sc \<Longrightarrow> m' \<in> scored sc \<Longrightarrow> zless m m' \<longleftrightarrow> zbefore m m'"
  by (auto simp: scored_def zless_def zbefore_def f64_less_def f64_eq_def)

lemmas zless_alt = zless_before [unfolded zbefore_def]

lemma scored_inj: "m \<in> scored sc \<Longrightarrow> m' \<in> scored sc \<Longrightarrow> Member m = Member m' \<Longrightarrow> m = m'"
  by (auto simp: scored_def)

interpretation zorder: slice_order zless "scored sc" for sc
proof
  fix x y assume m: "x \<in> scored sc" "y \<in> scored sc" "x \<noteq> y"
  then have "Member x \<noteq> Member y" using scored_inj by blast
  with m show "zless x y \<or> zless y x" by (auto simp: zless_alt [of _ sc])
qed (auto simp: zless_alt [of _ sc])

lemma set_zmembers: "nan_free (scores z) \<Longrightarrow> set (zmembers is z) = scored (scores z)"
  by (force simp: zmembers_def scored_def nan_free_def List.map_filter_def mem_fmdom_iff image_iff
      dest: fmpredD)

lemma Member_zmembers: "map Member (zmembers is z) = range_keys is (scores z)"
proof -
    have "map Member (List.map_filter (\<lambda>m. map_option (\<lambda>sc. \<lparr>Member = m, Score = sc\<rparr>) (fmlookup (scores z) m)) ks) = ks"
      if "\<forall>m \<in> set ks. fmlookup (scores z) m \<noteq> None" for ks
      using that by (induction ks) (auto simp: List.map_filter_simps)
    then show ?thesis by (simp add: zmembers_def mem_fmdom_iff)
qed

lemma distinct_zmembers: "distinct (zmembers is z)"
  by (metis Member_zmembers distinct_map distinct_range_keys)

lemma length_zmembers: "length (zmembers is z) = fcard (fmdom (scores z))"
  by (metis Member_zmembers length_map length_range_keys)

lemma zsorted_order:
  assumes "nan_free (scores z)"
  shows "sorted_wrt zless (zsorted is z)" "set (zsorted is z) = scored (scores z)" "distinct (zsorted is z)"
    "zsorted is z = zsorted is' z"
proof -
  note m = set_zmembers [OF assms] distinct_zmembers [of _ z]
  show "sorted_wrt zless (zsorted is z)" "set (zsorted is z) = scored (scores z)" "distinct (zsorted is z)"
    using m zorder.sort_Slice_sorted [of "zmembers is z" "scores z"] by (simp_all add: zsorted_def)
  have "mset (zmembers is' z) = mset (zmembers is z)" using m by (simp add: set_eq_iff_mset_eq_distinct [symmetric])
  then show "zsorted is z = zsorted is' z"
    using zorder.sort_Slice_perm [of "zmembers is z" "scores z" "zmembers is' z"] m by (simp add: zsorted_def)
qed

lemma zsorted_before: "nan_free (scores z) \<Longrightarrow> sorted_wrt zbefore (zsorted is z)"
  using zsorted_order(1,2) [of z "is"] zless_before
  by (blast intro: sorted_wrt_mono_rel)

lemma find_rank_sorted:
  assumes "sorted_wrt zless xs" "set xs \<subseteq> scored sc" "x \<in> set xs"
  shows "find_rank (Member x) i xs = Some (i + card {y \<in> set xs. zless y x})"
  using assms
proof (induction xs arbitrary: i)
  case (Cons y ys)
  show ?case
  proof (cases "Member y = Member x")
    case True
    then have "y = x" using Cons.prems scored_inj by (metis insert_subset list.simps(15) subsetD)
    moreover have "\<not> zless z x" if "z \<in> set (y # ys)" for z
      using that \<open>y = x\<close> Cons.prems zorder.irrefl zorder.trans [of z sc x z] by auto
    ultimately have "{z \<in> set (y # ys). zless z x} = {}" by blast
    with True show ?thesis by simp
  next
    case False
    then have x: "x \<in> set ys" using Cons.prems(3) by auto
    then have "zless y x" using Cons.prems(1) by simp
    moreover have "y \<notin> set ys" using Cons.prems zorder.irrefl by auto
    ultimately have "{z \<in> set (y # ys). zless z x} = insert y {z \<in> set ys. zless z x}"
      "y \<notin> {z \<in> set ys. zless z x}" by auto
    then have "card {z \<in> set (y # ys). zless z x} = Suc (card {z \<in> set ys. zless z x})" by simp
    with False x Cons show ?thesis by simp
  qed
qed simp

lemma find_rank_nth: "find_rank m i xs = Some j \<Longrightarrow> i \<le> j \<and> j - i < length xs \<and> Member (xs ! (j - i)) = m"
proof (induction xs arbitrary: i)
  case (Cons x xs)
  then show ?case
    by (cases "Member x = m") (auto simp: nth_Cons' Suc_diff_le dest!: Cons.IH)
qed simp

lemma range_slice_single: "i < length xs \<Longrightarrow> range_slice (int i) (int i) xs = [xs ! i]"
  by (auto simp: range_slice_def clampIndex_eq Let_def take_Suc_conv_app_nth
      simp flip: Cons_nth_drop_Suc)

subsection \<open>Properties\<close>

definition scores_at :: "Time \<Rightarrow> Store \<Rightarrow> string \<Rightarrow> (string, float64) fmap" where
  "scores_at t s k = (case Option.bind (getLocked t s k) e_zset of None \<Rightarrow> fmempty | Some z \<Rightarrow> scores z)"

lemma zset_lookup:
  assumes "wf_store s" "\<not> wrong_kind KindZSet t s k"
  shows "fst (zsetOrWrongType t s k False) = Inr None \<and> scores_at t s k = fmempty \<or>
    fst (zsetOrWrongType t s k False) = Inr (Some \<lparr>scores = scores_at t s k\<rparr>)"
  using zset.acc_right(1) [OF assms] by (auto simp: scores_at_def split: option.split)

lemma zset_create:
  assumes "wf_store s" "\<not> wrong_kind KindZSet t s k"
  shows "\<exists>s'. zsetOrWrongType t s k True = (Inr (Some \<lparr>scores = scores_at t s k\<rparr>), s')"
  using zset.acc_right(2) [OF assms]
  by (cases "Option.bind (getLocked t s k) e_zset") (simp_all add: scores_at_def new_zset_def)

text \<open>A store with the sorted set \<open>{a: 2.0, b: 1.0}\<close>.\<close>

definition sample_zset :: Store where
  "sample_zset = put ''z'' (new_zset\<lparr>e_zset := Some \<lparr>scores = fmupd ''a'' 0x4000000000000000
     (fmupd ''b'' 0x3FF0000000000000 fmempty)\<rparr>\<rparr>) New"

lemma sample_zset_ok:
  "wf_store sample_zset" "\<not> wrong_kind KindZSet t sample_zset ''z''"
  "scores_at t sample_zset ''z'' = fmupd ''a'' 0x4000000000000000 (fmupd ''b'' 0x3FF0000000000000 fmempty)"
  by (auto simp: sample_zset_def wrong_kind_def scores_at_def new_zset_def new_entry_def wf_entry_def
      expired_def IsZero_def intro!: wf_intros)

lemma sample_zset_nan_free: "nan_free (scores_at t sample_zset ''z'')"
  unfolding sample_zset_ok by (auto simp: nan_free_def f64_nan_def fmpred_iff)

text \<open>C32: \<open>ZADD\<close> refines the update of the score map: the reply counts the members that were not
  there, whatever order the map is ranged over, and no other key changes; \<open>ZSCORE\<close> then reads the
  new score.\<close>

theorem ZAdd_refines:
  assumes "wf_store s" "ms \<noteq> fmempty" "\<not> wrong_kind KindZSet (c 0) s k"
  shows "\<exists>s'. ZAdd c is k ms s =
      Some (Inr (card {m. m |\<in>| fmdom ms \<and> m |\<notin>| fmdom (scores_at (c 0) s k)}), s') \<and>
    scores_at (c 0) s' k = scores_at (c 0) s k ++\<^sub>f ms \<and>
    ZScore c k m s' = Inr (fmlookup (scores_at (c 0) s k ++\<^sub>f ms) m) \<and>
    (\<forall>t k'. k' \<noteq> k \<longrightarrow> getLocked t s' k' = getLocked t s k')"
proof -
  define z where "z = \<lparr>scores = scores_at (c 0) s k\<rparr>"
  then have z: "scores z = scores_at (c 0) s k" by simp
  obtain s1 where a: "zsetOrWrongType (c 0) s k True = (Inr (Some z), s1)"
    using zset_create [OF assms(1,3)] by (auto simp: z_def)
  define s' where "s' = set_scores k (scores z ++\<^sub>f ms) s1"
  have g: "\<exists>e. getLocked (c 0) s' k = Some e \<and> e_kind e = KindZSet \<and> e_zset e = Some \<lparr>scores = scores z ++\<^sub>f ms\<rparr>"
    using zset.getLocked_wr [OF a, of "\<lparr>scores = scores z ++\<^sub>f ms\<rparr>"] by (simp add: s'_def)
  then have "scores_at (c 0) s' k = scores z ++\<^sub>f ms" "ZScore c k m s' = Inr (fmlookup (scores z ++\<^sub>f ms) m)"
    by (auto simp: scores_at_def ZScore_def zsetOrWrongType_def)
  moreover have "getLocked t s' k' = getLocked t s k'" if "k' \<noteq> k" for t k'
    using zset.wr_getLocked_frame [OF a that, of t "\<lparr>scores = scores z ++\<^sub>f ms\<rparr>"] by (simp add: s'_def)
  ultimately show ?thesis
    by (simp add: ZAdd_eq a z s'_def mem_fmdom_iff)
qed

theorem ZAdd_refines_witness:
  "\<exists>s'. ZAdd (\<lambda>_. 5) [] ''z'' (fmupd ''c'' 0 fmempty) sample_zset = Some (Inr 1, s')"
proof -
  have c: "card {m. m |\<in>| fmdom (fmupd ''c'' 0 fmempty) \<and> m |\<notin>| fmdom (scores_at 5 sample_zset ''z'')} = 1"
  proof -
    have "{m. m |\<in>| fmdom (fmupd ''c'' 0 fmempty) \<and> m |\<notin>| fmdom (scores_at 5 sample_zset ''z'')} = {''c''}"
      unfolding sample_zset_ok by auto
    then show ?thesis by simp
  qed
  have n: "fmupd ''c'' 0 fmempty \<noteq> (fmempty :: (string, float64) fmap)" by simp
  from ZAdd_refines [OF sample_zset_ok(1) n sample_zset_ok(2), of "\<lambda>_. 5" "[]" "''c''"]
  show ?thesis unfolding c by (elim exE conjE) (intro exI)
qed

text \<open>C21: On a sorted set without NaN scores \<open>ZRANGE 0 -1\<close> lists every member once, in strictly
  increasing order of score and, among equal scores, of name; the order in which the map is ranged over cannot be
  seen in any range.\<close>

theorem ZRange_sorted:
  assumes "wf_store s" "\<not> wrong_kind KindZSet (c 0) s k" "nan_free (scores_at (c 0) s k)"
  shows "(\<exists>ms. ZRange c is k 0 (- 1) s = Inr ms \<and> sorted_wrt zbefore ms \<and>
      set ms = {m. fmlookup (scores_at (c 0) s k) (Member m) = Some (Score m)} \<and>
      length ms = fcard (fmdom (scores_at (c 0) s k))) \<and>
    ZRange c is k a b s = ZRange c is' k a b s"
  using zset_lookup [OF assms(1,2)]
proof (elim disjE conjE)
  assume "fst (zsetOrWrongType (c 0) s k False) = Inr None" "scores_at (c 0) s k = fmempty"
  then show ?thesis by (simp add: ZRange_def)
next
  define z where "z = \<lparr>scores = scores_at (c 0) s k\<rparr>"
  assume "fst (zsetOrWrongType (c 0) s k False) = Inr (Some \<lparr>scores = scores_at (c 0) s k\<rparr>)"
  then have r: "ZRange c is k a b s = Inr (range_slice a b (zsorted is z))" for "is" a b
    by (simp add: ZRange_def z_def)
  have nf: "nan_free (scores z)" using assms(3) by (simp add: z_def)
  have full: "range_slice 0 (- 1) xs = xs" for xs :: "ZMember list"
    by (simp add: range_slice_def clampIndex_eq Let_def)
  have "scored (scores z) = {m. fmlookup (scores_at (c 0) s k) (Member m) = Some (Score m)}"
    using assms(3) by (auto simp: scored_def nan_free_def z_def dest: fmpredD)
  moreover have "length (zsorted is z) = fcard (fmdom (scores z))"
    using length_zmembers by (simp add: zsorted_def)
  moreover have "scores z = scores_at (c 0) s k" by (simp add: z_def)
  ultimately show ?thesis
    using zsorted_before [OF nf, of "is"] zsorted_order(2) [OF nf, of "is"] zsorted_order(4) [OF nf, of "is" is'] by (simp add: r full)
qed

theorem ZRange_sorted_witness:
  "\<exists>ms. ZRange (\<lambda>_. 5) [1] ''z'' 0 (- 1) sample_zset = Inr ms \<and> sorted_wrt zbefore ms"
  using ZRange_sorted [OF sample_zset_ok(1,2) sample_zset_nan_free, of "\<lambda>_. 5" "[1]" 0 0 "[]"] by blast

text \<open>C26: On a sorted set without NaN scores \<open>ZRANK\<close> is the number of members with a smaller
  score, or the same score and a smaller name, and \<open>ZRANGE\<close> at that rank returns it; a member that is not there has no rank.\<close>

theorem ZRank_position:
  assumes "wf_store s" "\<not> wrong_kind KindZSet (c 0) s k" "nan_free (scores_at (c 0) s k)"
  shows "case fmlookup (scores_at (c 0) s k) m of
      None \<Rightarrow> ZRank c is k m s = Inr None
    | Some sc \<Rightarrow>
        (let i = card {y. fmlookup (scores_at (c 0) s k) (Member y) = Some (Score y) \<and> zbefore y \<lparr>Member = m, Score = sc\<rparr>}
         in ZRank c is k m s = Inr (Some i) \<and>
            ZRange c is k (int i) (int i) s = Inr [\<lparr>Member = m, Score = sc\<rparr>])"
  using zset_lookup [OF assms(1,2)]
proof (elim disjE conjE)
  assume "fst (zsetOrWrongType (c 0) s k False) = Inr None" "scores_at (c 0) s k = fmempty"
  then show ?thesis by (simp add: ZRank_def)
next
  define z where "z = \<lparr>scores = scores_at (c 0) s k\<rparr>"
  assume a: "fst (zsetOrWrongType (c 0) s k False) = Inr (Some \<lparr>scores = scores_at (c 0) s k\<rparr>)"
  have nf: "nan_free (scores z)" using assms(3) by (simp add: z_def)
  note o = zsorted_order [OF nf, of "is"]
  show ?thesis
  proof (cases "fmlookup (scores_at (c 0) s k) m")
    case None
    with a show ?thesis by (simp add: ZRank_def)
  next
    case (Some sc)
    define x where "x = \<lparr>Member = m, Score = sc\<rparr>"
    define i where "i = card {y. fmlookup (scores z) (Member y) = Some (Score y) \<and> zbefore y x}"
    have sc: "scored (scores z) = {y. fmlookup (scores z) (Member y) = Some (Score y)}"
      using nf by (auto simp: scored_def nan_free_def dest: fmpredD)
    have x: "x \<in> set (zsorted is z)" "Member x = m"
      unfolding o(2) using Some assms(3) by (auto simp: x_def scored_def z_def nan_free_def dest: fmpredD)
    have "{y \<in> scored (scores z). zless y x} = {y. fmlookup (scores z) (Member y) = Some (Score y) \<and> zbefore y x}"
      using x(1) zless_before [of _ "scores z" x] unfolding o(2) by (auto simp: sc)
    then have rank: "find_rank m 0 (zsorted is z) = Some i"
      using find_rank_sorted [OF o(1) _ x(1), of "scores z" 0] o(2) x(2) by (simp add: i_def)
    then have nth: "i < length (zsorted is z)" "Member (zsorted is z ! i) = m"
      using find_rank_nth [of m 0 "zsorted is z" i] by simp_all
    then have "zsorted is z ! i = x"
      using scored_inj [of "zsorted is z ! i" "scores z" x] x o(2) nth_mem by metis
    then have "range_slice (int i) (int i) (zsorted is z) = [x]"
      using nth(1) range_slice_single by metis
    with a Some rank show ?thesis
      by (simp add: ZRank_def ZRange_def Let_def z_def [symmetric] i_def [symmetric] flip: x_def)
        (simp add: i_def z_def x_def)
  qed
qed

lemma sample_scores:
  "\<not> f64_nan 0x4000000000000000" "\<not> f64_nan 0x3FF0000000000000"
  "f64_key 0x4000000000000000 = 0x4000000000000000" "f64_key 0x3FF0000000000000 = 0x3FF0000000000000"
  by (simp_all add: f64_nan_def f64_key_def)

lemma sample_members:
  "fmlookup (scores_at t sample_zset ''z'') (Member y) = Some (Score y) \<longleftrightarrow>
     y = \<lparr>Member = ''a'', Score = 0x4000000000000000\<rparr> \<or> y = \<lparr>Member = ''b'', Score = 0x3FF0000000000000\<rparr>"
  unfolding sample_zset_ok by (cases y) (auto split: if_splits)

theorem ZRank_position_witness:
  "ZRank (\<lambda>_. 5) [] ''z'' ''a'' sample_zset = Inr (Some 1) \<and>
   ZRange (\<lambda>_. 5) [] ''z'' 1 1 sample_zset = Inr [\<lparr>Member = ''a'', Score = 0x4000000000000000\<rparr>]"
proof -
  let ?a = "\<lparr>Member = ''a'', Score = 0x4000000000000000\<rparr>" and ?b = "\<lparr>Member = ''b'', Score = 0x3FF0000000000000\<rparr>"
  have "zbefore ?b ?a" "\<not> zbefore ?a ?a"
    by (simp_all add: zbefore_def sample_scores)
  then have "{y. fmlookup (scores_at 5 sample_zset ''z'') (Member y) = Some (Score y) \<and> zbefore y ?a} = {?b}"
    unfolding sample_members by blast
  then have one: "card {y. fmlookup (scores_at 5 sample_zset ''z'') (Member y) = Some (Score y) \<and> zbefore y ?a} = 1" by simp
  have "fmlookup (scores_at 5 sample_zset ''z'') ''a'' = Some 0x4000000000000000"
    unfolding sample_zset_ok by simp
  with ZRank_position [OF sample_zset_ok(1,2) sample_zset_nan_free, of "\<lambda>_. 5" "[]" "''a''"] one
  show ?thesis by (simp only: option.case Let_def) simp
qed

end
