(* ===== verification/StoreCommands.thy ===== *)
theory StoreCommands
  imports Resp HashStore SetStore ZSetStore
begin

section \<open>Command handlers on the keyspace (internal/command)\<close>

text \<open>
  The handlers of \<open>connection.go\<close>, \<open>generic.go\<close>, \<open>strings.go\<close>, \<open>hashes.go\<close>,
  \<open>lists.go\<close>, \<open>sets.go\<close>, \<open>zsets.go\<close> and \<open>server.go\<close>: from the environment, the store
  and the arguments after the command name to the reply and the new store. \<open>None\<close> is a
  run-time panic (an index out of range, an assignment into a nil map).
\<close>

type_synonym store_handler = "Env \<Rightarrow> Store \<Rightarrow> Value list \<Rightarrow> (Value \<times> Store) option"

subsection \<open>Definitions: arguments and replies\<close>

text \<open>\<open>args[i].Str\<close> and \<open>args[i:]\<close>.\<close>

definition arg :: "nat \<Rightarrow> Value list \<Rightarrow> string option" where
  "arg i args = (if i < length args then Some (vStr (args ! i)) else None)"

definition args_from :: "nat \<Rightarrow> Value list \<Rightarrow> Value list option" where
  "args_from i args = (if i \<le> length args then Some (drop i args) else None)"

definition argStrings :: "Value list \<Rightarrow> string list" where
  "argStrings args = map vStr args"

definition err_reply :: "store_error \<Rightarrow> Value" where
  "err_reply e = Errorf (error_string e)"

definition int_reply :: "nat \<Rightarrow> Value" where
  "int_reply n = IntV (of_nat n)"

definition bool_reply :: "bool \<Rightarrow> Value" where
  "bool_reply b = (if b then IntV 1 else IntV 0)"

definition opt_reply :: "string option \<Rightarrow> Value" where
  "opt_reply v = (case v of None \<Rightarrow> NullBulk | Some x \<Rightarrow> Bulk x)"

text \<open>\<open>if err != nil { return resp.Errorf("%s", err.Error()) }\<close>, then the reply \<open>f x\<close>.\<close>

definition reply_or_err :: "('a \<Rightarrow> Value) \<Rightarrow> store_error + 'a \<Rightarrow> Value" where
  "reply_or_err f r = (case r of Inl e \<Rightarrow> err_reply e | Inr x \<Rightarrow> f x)"

definition finish :: "('a \<Rightarrow> Value) \<Rightarrow> (store_error + 'a) \<times> Store \<Rightarrow> Value \<times> Store" where
  "finish f r = (reply_or_err f (fst r), snd r)"

definition not_integer :: Value where
  "not_integer = Errorf ''ERR value is not an integer or out of range''"

definition syntax_error :: Value where
  "syntax_error = Errorf ''ERR syntax error''"

subsection \<open>Definitions: connection.go\<close>

definition ping_cmd :: store_handler where
  "ping_cmd env st args =
     (if length args = 0 then Some (Str ''PONG'', st)
      else do { m \<leftarrow> arg 0 args; Some (Bulk m, st) })"

definition echo_cmd :: store_handler where
  "echo_cmd env st args = do { m \<leftarrow> arg 0 args; Some (Bulk m, st) }"

subsection \<open>Definitions: generic.go\<close>

definition del_cmd :: store_handler where
  "del_cmd env st args =
     (let (n, st') = Del (clk env) (argStrings args) st in Some (int_reply n, st'))"

definition exists_cmd :: store_handler where
  "exists_cmd env st args = Some (int_reply (Exists (clk env) (argStrings args) st), st)"

definition expire_unit :: "Duration \<Rightarrow> store_handler" where
  "expire_unit u env st args = do {
     a \<leftarrow> arg 1 args;
     (case ParseInt a of
        None \<Rightarrow> Some (not_integer, st)
      | Some n \<Rightarrow> do {
          k \<leftarrow> arg 0 args;
          (let (ok, st') = Expire (clk env) k (n * u) st in Some (bool_reply ok, st')) }) }"

definition expire_cmd :: store_handler where
  "expire_cmd = expire_unit time_Second"

definition pexpire_cmd :: store_handler where
  "pexpire_cmd = expire_unit time_Millisecond"

definition ttl_cmd :: store_handler where
  "ttl_cmd env st args = do { k \<leftarrow> arg 0 args; Some (IntV (TTLSeconds (clk env) k st), st) }"

definition pttl_cmd :: store_handler where
  "pttl_cmd env st args = do { k \<leftarrow> arg 0 args; Some (IntV (TTLMillis (clk env) k st), st) }"

definition persist_cmd :: store_handler where
  "persist_cmd env st args = do {
     k \<leftarrow> arg 0 args;
     (let (ok, st') = Persist (clk env) k st in Some (bool_reply ok, st')) }"

definition type_cmd :: store_handler where
  "type_cmd env st args = do {
     k \<leftarrow> arg 0 args;
     Some (case StoreType (clk env) k st of
             None \<Rightarrow> Str ''none'' | Some kind \<Rightarrow> Str (kind_string kind), st) }"

definition keys_cmd :: store_handler where
  "keys_cmd env st args = do {
     p \<leftarrow> arg 0 args; Some (BulkStrings (Keys env (clk env) (iter env) p st), st) }"

definition rename_cmd :: store_handler where
  "rename_cmd env st args = do {
     src \<leftarrow> arg 0 args; dst \<leftarrow> arg 1 args;
     (case Rename (clk env) src dst st of
        (Some e, st') \<Rightarrow> Some (err_reply e, st')
      | (None, st') \<Rightarrow> Some (OK, st')) }"

subsection \<open>Definitions: strings.go\<close>

text \<open>The loop over the options of \<open>SET\<close>: an error reply or the options.\<close>

fun set_options :: "'a Runtime_scheme \<Rightarrow> string list \<Rightarrow> SetOptions \<Rightarrow> Value + SetOptions" where
  "set_options rt [] opts = Inr opts"
| "set_options rt (a # rest) opts =
     (let u = ToUpper rt a
      in if u = ''NX'' then set_options rt rest (opts\<lparr>OnlyIfNew := True\<rparr>)
         else if u = ''XX'' then set_options rt rest (opts\<lparr>OnlyIfOld := True\<rparr>)
         else if u = ''EX'' \<or> u = ''PX'' then
           (case rest of
              [] \<Rightarrow> Inl syntax_error
            | n # rest' \<Rightarrow>
                (case ParseInt n of
                   None \<Rightarrow> Inl not_integer
                 | Some w \<Rightarrow>
                     set_options rt rest'
                       (opts\<lparr>HasTTL := True,
                             TTL := w * (if u = ''EX'' then time_Second else time_Millisecond)\<rparr>)))
         else Inl syntax_error)"

definition set_cmd :: store_handler where
  "set_cmd env st args = do {
     key \<leftarrow> arg 0 args; val \<leftarrow> arg 1 args;
     (case set_options env (argStrings (drop 2 args)) no_options of
        Inl e \<Rightarrow> Some (e, st)
      | Inr opts \<Rightarrow>
          Some (finish (\<lambda>ok. if \<not> ok then NullBulk else OK) (Set (clk env) key val opts st))) }"

definition get_cmd :: store_handler where
  "get_cmd env st args = do {
     k \<leftarrow> arg 0 args; Some (reply_or_err opt_reply (Get (clk env) k st), st) }"

definition getSet_cmd :: store_handler where
  "getSet_cmd env st args = do {
     k \<leftarrow> arg 0 args; v \<leftarrow> arg 1 args; Some (finish opt_reply (GetSet (clk env) k v st)) }"

definition setNX_cmd :: store_handler where
  "setNX_cmd env st args = do {
     k \<leftarrow> arg 0 args; v \<leftarrow> arg 1 args;
     Some (finish bool_reply (Set (clk env) k v (no_options\<lparr>OnlyIfNew := True\<rparr>) st)) }"

definition setEX_cmd :: store_handler where
  "setEX_cmd env st args = do {
     a \<leftarrow> arg 1 args;
     (case ParseInt a of
        None \<Rightarrow> Some (not_integer, st)
      | Some n \<Rightarrow> do {
          k \<leftarrow> arg 0 args; v \<leftarrow> arg 2 args;
          Some (finish (\<lambda>_. OK)
            (Set (clk env) k v (no_options\<lparr>HasTTL := True, TTL := n * time_Second\<rparr>) st)) }) }"

text \<open>\<open>for i := \<dots>; i < len(args); i += 2 { m[args[i].Str] = args[i+1].Str }\<close>\<close>

fun collect_pairs :: "Value list \<Rightarrow> (string, string) fmap \<Rightarrow> (string, string) fmap option" where
  "collect_pairs [] m = Some m"
| "collect_pairs [x] m = None"
| "collect_pairs (x # y # rest) m = collect_pairs rest (fmupd (vStr x) (vStr y) m)"

definition mset_cmd :: store_handler where
  "mset_cmd env st args =
     (if length args mod 2 \<noteq> 0
      then Some (Errorf ''ERR wrong number of arguments for 'mset' command'', st)
      else do {
        pairs \<leftarrow> collect_pairs args fmempty;
        Some (OK, MSet (iter env) pairs st) })"

definition mget_cmd :: store_handler where
  "mget_cmd env st args = Some (Array (map opt_reply (MGet (clk env) (argStrings args) st)), st)"

definition incrByAmount :: "Env \<Rightarrow> Store \<Rightarrow> string \<Rightarrow> int64 \<Rightarrow> Value \<times> Store" where
  "incrByAmount env st key delta = finish IntV (IncrBy (clk env) key delta st)"

definition incr_cmd :: store_handler where
  "incr_cmd env st args = do { k \<leftarrow> arg 0 args; Some (incrByAmount env st k 1) }"

definition incrBy_cmd :: store_handler where
  "incrBy_cmd env st args = do {
     a \<leftarrow> arg 1 args;
     (case ParseInt a of
        None \<Rightarrow> Some (not_integer, st)
      | Some delta \<Rightarrow> do { k \<leftarrow> arg 0 args; Some (incrByAmount env st k delta) }) }"

definition decr_cmd :: store_handler where
  "decr_cmd env st args = do { k \<leftarrow> arg 0 args; Some (incrByAmount env st k (- 1)) }"

definition decrBy_cmd :: store_handler where
  "decrBy_cmd env st args = do {
     a \<leftarrow> arg 1 args;
     (case ParseInt a of
        None \<Rightarrow> Some (not_integer, st)
      | Some delta \<Rightarrow> do { k \<leftarrow> arg 0 args; Some (incrByAmount env st k (- delta)) }) }"

definition append_cmd :: store_handler where
  "append_cmd env st args = do {
     k \<leftarrow> arg 0 args; v \<leftarrow> arg 1 args; Some (finish int_reply (Append (clk env) k v st)) }"

definition strlen_cmd :: store_handler where
  "strlen_cmd env st args = do {
     k \<leftarrow> arg 0 args; Some (reply_or_err int_reply (StrLen (clk env) k st), st) }"

subsection \<open>Definitions: hashes.go\<close>

definition hset_cmd :: store_handler where
  "hset_cmd env st args =
     (if length args mod 2 \<noteq> 1
      then Some (Errorf ''ERR wrong number of arguments for 'hset' command'', st)
      else do {
        flds \<leftarrow> collect_pairs (drop 1 args) fmempty;
        k \<leftarrow> arg 0 args;
        map_option (finish int_reply) (HSet (clk env) (iter env) k flds st) })"

definition hget_cmd :: store_handler where
  "hget_cmd env st args = do {
     k \<leftarrow> arg 0 args; f \<leftarrow> arg 1 args; Some (reply_or_err opt_reply (HGet (clk env) k f st), st) }"

text \<open>Ranging over a nil map visits nothing.\<close>

definition hash_elems :: "nat list \<Rightarrow> (string, string) fmap option \<Rightarrow> Value list" where
  "hash_elems is h =
     (case h of
        None \<Rightarrow> []
      | Some m \<Rightarrow>
          concat (map (\<lambda>k. case fmlookup m k of None \<Rightarrow> [] | Some v \<Rightarrow> [Bulk k, Bulk v])
            (range_keys is m)))"

definition hgetall_cmd :: store_handler where
  "hgetall_cmd env st args = do {
     k \<leftarrow> arg 0 args;
     Some (reply_or_err (\<lambda>h. Array (hash_elems (iter env) h)) (HGetAll (clk env) k st), st) }"

definition hdel_cmd :: store_handler where
  "hdel_cmd env st args = do {
     k \<leftarrow> arg 0 args; fs \<leftarrow> args_from 1 args;
     Some (finish int_reply (HDel (clk env) k (argStrings fs) st)) }"

definition hexists_cmd :: store_handler where
  "hexists_cmd env st args = do {
     k \<leftarrow> arg 0 args; f \<leftarrow> arg 1 args;
     Some (reply_or_err bool_reply (HExists (clk env) k f st), st) }"

definition hlen_cmd :: store_handler where
  "hlen_cmd env st args = do {
     k \<leftarrow> arg 0 args; Some (reply_or_err int_reply (HLen (clk env) k st), st) }"

definition hkeys_cmd :: store_handler where
  "hkeys_cmd env st args = do {
     k \<leftarrow> arg 0 args; Some (reply_or_err BulkStrings (HKeys (clk env) (iter env) k st), st) }"

definition hvals_cmd :: store_handler where
  "hvals_cmd env st args = do {
     k \<leftarrow> arg 0 args; Some (reply_or_err BulkStrings (HVals (clk env) (iter env) k st), st) }"

definition hmget_cmd :: store_handler where
  "hmget_cmd env st args = do {
     k \<leftarrow> arg 0 args; fs \<leftarrow> args_from 1 args;
     Some (reply_or_err (\<lambda>vs. Array (map opt_reply vs)) (HMGet (clk env) k (argStrings fs) st), st) }"

definition hincrby_cmd :: store_handler where
  "hincrby_cmd env st args = do {
     a \<leftarrow> arg 2 args;
     (case ParseInt a of
        None \<Rightarrow> Some (not_integer, st)
      | Some delta \<Rightarrow> do {
          k \<leftarrow> arg 0 args; f \<leftarrow> arg 1 args;
          map_option (finish IntV) (HIncrBy (clk env) k f delta st) }) }"

subsection \<open>Definitions: lists.go\<close>

definition lpush_cmd :: store_handler where
  "lpush_cmd env st args = do {
     k \<leftarrow> arg 0 args; vs \<leftarrow> args_from 1 args;
     map_option (finish int_reply) (LPush (clk env) k (argStrings vs) st) }"

definition rpush_cmd :: store_handler where
  "rpush_cmd env st args = do {
     k \<leftarrow> arg 0 args; vs \<leftarrow> args_from 1 args;
     map_option (finish int_reply) (RPush (clk env) k (argStrings vs) st) }"

definition lpop_cmd :: store_handler where
  "lpop_cmd env st args = do {
     k \<leftarrow> arg 0 args; Some (finish opt_reply (LPop (clk env) k st)) }"

definition rpop_cmd :: store_handler where
  "rpop_cmd env st args = do {
     k \<leftarrow> arg 0 args; Some (finish opt_reply (RPop (clk env) k st)) }"

definition llen_cmd :: store_handler where
  "llen_cmd env st args = do {
     k \<leftarrow> arg 0 args; Some (reply_or_err int_reply (LLen (clk env) k st), st) }"

definition lrange_cmd :: store_handler where
  "lrange_cmd env st args = do {
     a \<leftarrow> arg 1 args; b \<leftarrow> arg 2 args;
     (case (ParseInt a, ParseInt b) of
        (Some start, Some stop) \<Rightarrow> do {
          k \<leftarrow> arg 0 args;
          Some (reply_or_err BulkStrings (LRange (clk env) k (sint start) (sint stop) st), st) }
      | _ \<Rightarrow> Some (not_integer, st)) }"

definition lindex_cmd :: store_handler where
  "lindex_cmd env st args = do {
     a \<leftarrow> arg 1 args;
     (case ParseInt a of
        None \<Rightarrow> Some (not_integer, st)
      | Some idx \<Rightarrow> do {
          k \<leftarrow> arg 0 args; Some (reply_or_err opt_reply (LIndex (clk env) k (sint idx) st), st) }) }"

subsection \<open>Definitions: sets.go\<close>

definition sadd_cmd :: store_handler where
  "sadd_cmd env st args = do {
     k \<leftarrow> arg 0 args; ms \<leftarrow> args_from 1 args;
     map_option (finish int_reply) (SAdd (clk env) k (argStrings ms) st) }"

definition srem_cmd :: store_handler where
  "srem_cmd env st args = do {
     k \<leftarrow> arg 0 args; ms \<leftarrow> args_from 1 args;
     Some (finish int_reply (SRem (clk env) k (argStrings ms) st)) }"

definition smembers_cmd :: store_handler where
  "smembers_cmd env st args = do {
     k \<leftarrow> arg 0 args; Some (reply_or_err BulkStrings (SMembers (clk env) (iter env) k st), st) }"

definition sismember_cmd :: store_handler where
  "sismember_cmd env st args = do {
     k \<leftarrow> arg 0 args; m \<leftarrow> arg 1 args;
     Some (reply_or_err bool_reply (SIsMember (clk env) k m st), st) }"

definition scard_cmd :: store_handler where
  "scard_cmd env st args = do {
     k \<leftarrow> arg 0 args; Some (reply_or_err int_reply (SCard (clk env) k st), st) }"

subsection \<open>Definitions: zsets.go\<close>

text \<open>The loop of \<open>zadd\<close> over score and member pairs: an error reply or the scores.\<close>

fun collect_scores ::
    "'a Runtime_scheme \<Rightarrow> Value list \<Rightarrow> (string, float64) fmap \<Rightarrow> (Value + (string, float64) fmap) option" where
  "collect_scores rt [] m = Some (Inr m)"
| "collect_scores rt (x # rest) m =
     (case parseFloat rt (vStr x) of
        None \<Rightarrow> Some (Inl (Errorf ''ERR value is not a valid float''))
      | Some score \<Rightarrow>
          (case rest of
             [] \<Rightarrow> None
           | y # rest' \<Rightarrow> collect_scores rt rest' (fmupd (vStr y) score m)))"

definition zadd_cmd :: store_handler where
  "zadd_cmd env st args =
     (if length args mod 2 \<noteq> 1
      then Some (Errorf ''ERR wrong number of arguments for 'zadd' command'', st)
      else do {
        r \<leftarrow> collect_scores env (drop 1 args) fmempty;
        (case r of
           Inl e \<Rightarrow> Some (e, st)
         | Inr members \<Rightarrow> do {
             k \<leftarrow> arg 0 args;
             map_option (finish int_reply) (ZAdd (clk env) (iter env) k members st) }) })"

definition formatScore :: "Env \<Rightarrow> float64 \<Rightarrow> string" where
  "formatScore env f = formatFloat env f"

definition zscore_cmd :: store_handler where
  "zscore_cmd env st args = do {
     k \<leftarrow> arg 0 args; m \<leftarrow> arg 1 args;
     Some (reply_or_err (\<lambda>sc. opt_reply (map_option (formatScore env) sc)) (ZScore (clk env) k m st), st) }"

definition zrem_cmd :: store_handler where
  "zrem_cmd env st args = do {
     k \<leftarrow> arg 0 args; ms \<leftarrow> args_from 1 args;
     Some (finish int_reply (ZRem (clk env) k (argStrings ms) st)) }"

definition zcard_cmd :: store_handler where
  "zcard_cmd env st args = do {
     k \<leftarrow> arg 0 args; Some (reply_or_err int_reply (ZCard (clk env) k st), st) }"

definition zrank_cmd :: store_handler where
  "zrank_cmd env st args = do {
     k \<leftarrow> arg 0 args; m \<leftarrow> arg 1 args;
     Some (reply_or_err (\<lambda>r. case r of None \<Rightarrow> NullBulk | Some i \<Rightarrow> int_reply i)
             (ZRank (clk env) (iter env) k m st), st) }"

definition with_scores :: "Env \<Rightarrow> ZMember list \<Rightarrow> Value list" where
  "with_scores env ms = concat (map (\<lambda>m. [Bulk (Member m), Bulk (formatScore env (Score m))]) ms)"

definition zrange_cmd :: store_handler where
  "zrange_cmd env st args = do {
     a \<leftarrow> arg 1 args; b \<leftarrow> arg 2 args;
     (case (ParseInt a, ParseInt b) of
        (Some start, Some stop) \<Rightarrow>
          (if (length args = 4 \<and> ToUpper env (vStr (args ! 3)) \<noteq> ''WITHSCORES'') \<or> length args > 4
           then Some (syntax_error, st)
           else do {
             k \<leftarrow> arg 0 args;
             Some (reply_or_err
                     (\<lambda>ms. if length args = 4 then Array (with_scores env ms)
                            else BulkStrings (map Member ms))
                     (ZRange (clk env) (iter env) k (sint start) (sint stop) st), st) })
      | _ \<Rightarrow> Some (not_integer, st)) }"

subsection \<open>Definitions: server.go\<close>

definition flushall_cmd :: store_handler where
  "flushall_cmd env st args = Some (OK, FlushAll st)"

definition dbsize_cmd :: store_handler where
  "dbsize_cmd env st args = Some (int_reply (DBSize (clk env) (iter env) st), st)"

definition info_body :: "Env \<Rightarrow> nat \<Rightarrow> string" where
  "info_body env n =
     ''# Server'' @ crlf @ ''goredis_version:1.0.0'' @ crlf @ ''go_version:'' @ goVersion env @ crlf
     @ ''os:'' @ goos env @ ''/'' @ goarch env @ crlf @ crlf
     @ ''# Keyspace'' @ crlf @ ''db0:keys='' @ Itoa n @ crlf"

definition info_cmd :: store_handler where
  "info_cmd env st args = Some (Bulk (info_body env (DBSize (clk env) (iter env) st)), st)"

end
