(* ===== verification/PubSub.thy ===== *)
theory PubSub
  imports Prelude
begin

section \<open>Publish/subscribe (internal/pubsub/hub.go)\<close>

text \<open>
  A \<open>*Subscriber\<close> is the number of its cell in the hub's heap of subscribers (the code
  numbers them in the same way), and a cell holds the subscriber's buffered Go channel as
  the list of the messages waiting in it. The lemmas show that the hub's table and the
  subscribers' own sets of channels describe the same subscriptions, what an operation
  does to them, and who receives a published message.
\<close>

subsection \<open>Definitions\<close>

record Message =
  Channel :: string
  Payload :: string

definition inboxSize :: nat where
  "inboxSize = 256"

record Subscriber =
  messages :: "Message list"
  channels :: "string fset"

record Hub =
  subs :: "(string, nat fset) fmap"
  nextID :: nat
  subscribers :: "(nat, Subscriber) fmap"

definition NewHub :: Hub where
  "NewHub = \<lparr>subs = fmempty, nextID = 0, subscribers = fmempty\<rparr>"

definition sub_channels :: "Hub \<Rightarrow> nat \<Rightarrow> string fset" where
  "sub_channels h i = (case fmlookup (subscribers h) i of None \<Rightarrow> {||} | Some s \<Rightarrow> channels s)"

definition inbox :: "Hub \<Rightarrow> nat \<Rightarrow> Message list" where
  "inbox h i = (case fmlookup (subscribers h) i of None \<Rightarrow> [] | Some s \<Rightarrow> messages s)"

definition chan_subs :: "Hub \<Rightarrow> string \<Rightarrow> nat fset" where
  "chan_subs h ch = (case fmlookup (subs h) ch of None \<Rightarrow> {||} | Some A \<Rightarrow> A)"

definition upd_subscriber :: "nat \<Rightarrow> (Subscriber \<Rightarrow> Subscriber) \<Rightarrow> Hub \<Rightarrow> Hub" where
  "upd_subscriber i f h =
     (case fmlookup (subscribers h) i of
        None \<Rightarrow> h
      | Some s \<Rightarrow> h\<lparr>subscribers := fmupd i (f s) (subscribers h)\<rparr>)"

definition ChannelCount :: "Hub \<Rightarrow> nat \<Rightarrow> nat" where
  "ChannelCount h i = fcard (sub_channels h i)"

definition Channels :: "nat list \<Rightarrow> Hub \<Rightarrow> nat \<Rightarrow> string list" where
  "Channels is h i = range_fset is (sub_channels h i)"

definition NewSubscriber :: "Hub \<Rightarrow> nat \<times> Hub" where
  "NewSubscriber h =
     (let i = Suc (nextID h)
      in (i, h\<lparr>nextID := i,
               subscribers := fmupd i \<lparr>messages = [], channels = {||}\<rparr> (subscribers h)\<rparr>))"

definition Subscribe :: "nat \<Rightarrow> string \<Rightarrow> Hub \<Rightarrow> nat \<times> Hub" where
  "Subscribe i ch h =
     (let h1 = h\<lparr>subs := fmupd ch (finsert i (chan_subs h ch)) (subs h)\<rparr>;
          h2 = upd_subscriber i (\<lambda>s. s\<lparr>channels := finsert ch (channels s)\<rparr>) h1
      in (ChannelCount h2 i, h2))"

definition Unsubscribe :: "nat \<Rightarrow> string \<Rightarrow> Hub \<Rightarrow> nat \<times> Hub" where
  "Unsubscribe i ch h =
     (let h1 = (case fmlookup (subs h) ch of
                  None \<Rightarrow> h
                | Some A \<Rightarrow>
                    (let A' = A |-| {|i|}
                     in h\<lparr>subs := (if A' = {||} then fmdrop ch (subs h) else fmupd ch A' (subs h))\<rparr>));
          h2 = upd_subscriber i (\<lambda>s. s\<lparr>channels := channels s |-| {|ch|}\<rparr>) h1
      in (ChannelCount h2 i, h2))"

definition UnsubscribeAll :: "nat list \<Rightarrow> nat \<Rightarrow> Hub \<Rightarrow> Hub" where
  "UnsubscribeAll is i h = fold (\<lambda>ch h. snd (Unsubscribe i ch h)) (Channels is h i) h"

text \<open>The non-blocking send to one subscriber; the count of deliveries goes along.\<close>

definition deliver :: "Message \<Rightarrow> nat \<Rightarrow> nat \<times> Hub \<Rightarrow> nat \<times> Hub" where
  "deliver msg i st =
     (case st of (n, h) \<Rightarrow>
        if length (inbox h i) < inboxSize
        then (Suc n, upd_subscriber i (\<lambda>s. s\<lparr>messages := messages s @ [msg]\<rparr>) h)
        else (n, h))"

definition Publish :: "nat list \<Rightarrow> string \<Rightarrow> string \<Rightarrow> Hub \<Rightarrow> nat \<times> Hub" where
  "Publish is ch payload h =
     fold (deliver \<lparr>Channel = ch, Payload = payload\<rparr>) (range_fset is (chan_subs h ch)) (0, h)"

text \<open>A receive from \<open>Messages()\<close>: \<open>None\<close> blocks.\<close>

definition receive :: "nat \<Rightarrow> Hub \<Rightarrow> (Message \<times> Hub) option" where
  "receive i h =
     (case inbox h i of
        [] \<Rightarrow> None
      | m # ms \<Rightarrow> Some (m, upd_subscriber i (\<lambda>s. s\<lparr>messages := ms\<rparr>) h))"

text \<open>
  The invariant: a subscriber is in the table of a channel exactly when the channel is in
  the subscriber's own set, no table entry is empty, every subscriber has been allocated,
  and no inbox exceeds its buffer.
\<close>

definition wf_hub :: "Hub \<Rightarrow> bool" where
  "wf_hub h \<longleftrightarrow>
     (\<forall>i ch. i |\<in>| chan_subs h ch \<longleftrightarrow> ch |\<in>| sub_channels h i) \<and>
     (\<forall>ch. fmlookup (subs h) ch \<noteq> Some {||}) \<and>
     (\<forall>i. i |\<in>| fmdom (subscribers h) \<longrightarrow> i \<le> nextID h) \<and>
     (\<forall>i. length (inbox h i) \<le> inboxSize)"

text \<open>The subscriptions as a relation, the abstract state of the hub.\<close>

definition subscriptions :: "Hub \<Rightarrow> (nat \<times> string) set" where
  "subscriptions h = {(i, ch). i |\<in>| chan_subs h ch}"

subsection \<open>Reading the hub after an update\<close>

lemma upd_subscriber_simps [simp]:
  "subs (upd_subscriber i f h) = subs h"
  "nextID (upd_subscriber i f h) = nextID h"
  "fmdom (subscribers (upd_subscriber i f h)) = fmdom (subscribers h)"
  by (auto simp: upd_subscriber_def mem_fmdom_iff split: option.splits)

lemma chan_subs_upd_subscriber [simp]: "chan_subs (upd_subscriber i f h) = chan_subs h"
  by (simp add: chan_subs_def fun_eq_iff)

lemma sub_channels_upd [simp]:
  "sub_channels (upd_subscriber i f h) j =
     (if j = i \<and> i |\<in>| fmdom (subscribers h) then channels (f (the (fmlookup (subscribers h) i)))
      else sub_channels h j)"
  by (auto simp: sub_channels_def upd_subscriber_def mem_fmdom_iff split: option.splits)

lemma inbox_upd [simp]:
  "inbox (upd_subscriber i f h) j =
     (if j = i \<and> i |\<in>| fmdom (subscribers h) then messages (f (the (fmlookup (subscribers h) i)))
      else inbox h j)"
  by (auto simp: inbox_def upd_subscriber_def mem_fmdom_iff split: option.splits)

lemma sub_channels_subs_update [simp]: "sub_channels (h\<lparr>subs := x\<rparr>) = sub_channels h"
  by (simp add: sub_channels_def fun_eq_iff)

lemma inbox_subs_update [simp]: "inbox (h\<lparr>subs := x\<rparr>) = inbox h"
  by (simp add: inbox_def fun_eq_iff)

lemma the_channels: "i |\<in>| fmdom (subscribers h) \<Longrightarrow> channels (the (fmlookup (subscribers h) i)) = sub_channels h i"
  by (auto simp: sub_channels_def mem_fmdom_iff)

lemma the_messages: "i |\<in>| fmdom (subscribers h) \<Longrightarrow> messages (the (fmlookup (subscribers h) i)) = inbox h i"
  by (auto simp: inbox_def mem_fmdom_iff)

lemmas subscriber_sel = the_channels the_messages

lemma sub_channels_allocated: "ch |\<in>| sub_channels h i \<Longrightarrow> i |\<in>| fmdom (subscribers h)"
  by (auto simp: sub_channels_def mem_fmdom_iff split: option.splits)

lemma wf_hub_allocated: "wf_hub h \<Longrightarrow> i |\<in>| chan_subs h ch \<Longrightarrow> i |\<in>| fmdom (subscribers h)"
  by (auto simp: wf_hub_def intro: sub_channels_allocated)

subsection \<open>Subscribing and unsubscribing\<close>

lemma chan_subs_Subscribe:
  "chan_subs (snd (Subscribe i ch h)) c = (if c = ch then finsert i (chan_subs h c) else chan_subs h c)"
  by (auto simp: Subscribe_def Let_def chan_subs_def)

lemma sub_channels_Subscribe:
  "i |\<in>| fmdom (subscribers h) \<Longrightarrow>
   sub_channels (snd (Subscribe i ch h)) j = (if j = i then finsert ch (sub_channels h j) else sub_channels h j)"
  by (simp add: Subscribe_def Let_def subscriber_sel)

lemma chan_subs_Unsubscribe:
  "chan_subs (snd (Unsubscribe i ch h)) c =
     (if c = ch then chan_subs h c |-| {|i|} else chan_subs h c)"
  by (auto simp: Unsubscribe_def Let_def chan_subs_def split: option.splits)

lemma sub_channels_Unsubscribe:
  "sub_channels (snd (Unsubscribe i ch h)) j =
     (if j = i then sub_channels h j |-| {|ch|} else sub_channels h j)"
  by (auto simp: Unsubscribe_def Let_def sub_channels_def upd_subscriber_def split: option.splits)

lemma fmdom_subscribers_ops [simp]:
  "fmdom (subscribers (snd (Subscribe i ch h))) = fmdom (subscribers h)"
  "fmdom (subscribers (snd (Unsubscribe i ch h))) = fmdom (subscribers h)"
  by (auto simp: Subscribe_def Unsubscribe_def Let_def split: option.splits)

lemma nextID_ops [simp]:
  "nextID (snd (Subscribe i ch h)) = nextID h"
  "nextID (snd (Unsubscribe i ch h)) = nextID h"
  by (auto simp: Subscribe_def Unsubscribe_def Let_def split: option.splits)

lemma inbox_ops [simp]:
  "inbox (snd (Subscribe i ch h)) j = inbox h j"
  "inbox (snd (Unsubscribe i ch h)) j = inbox h j"
  by (auto simp: Subscribe_def Unsubscribe_def Let_def subscriber_sel split: option.splits)

lemma subs_nonempty_ops:
  "fmlookup (subs h) c \<noteq> Some {||} \<Longrightarrow> fmlookup (subs (snd (Subscribe i ch h))) c \<noteq> Some {||}"
  "fmlookup (subs h) c \<noteq> Some {||} \<Longrightarrow> fmlookup (subs (snd (Unsubscribe i ch h))) c \<noteq> Some {||}"
  by (auto simp: Subscribe_def Unsubscribe_def Let_def split: option.splits if_splits)

lemma wf_Subscribe: "wf_hub h \<Longrightarrow> i |\<in>| fmdom (subscribers h) \<Longrightarrow> wf_hub (snd (Subscribe i ch h))"
  by (simp add: wf_hub_def chan_subs_Subscribe sub_channels_Subscribe subs_nonempty_ops)

lemma wf_Unsubscribe: "wf_hub h \<Longrightarrow> wf_hub (snd (Unsubscribe i ch h))"
  by (simp add: wf_hub_def chan_subs_Unsubscribe sub_channels_Unsubscribe subs_nonempty_ops)

lemma wf_NewHub: "wf_hub NewHub"
  by (simp add: wf_hub_def NewHub_def chan_subs_def sub_channels_def inbox_def)

lemma NewSubscriber_simps:
  assumes "NewSubscriber h = (i, h')"
  shows "i = Suc (nextID h)" "subs h' = subs h" "nextID h' = i" "chan_subs h' = chan_subs h"
    "fmdom (subscribers h') = finsert i (fmdom (subscribers h))"
    "inbox h' j = (if j = i then [] else inbox h j)"
    "sub_channels h' j = (if j = i then {||} else sub_channels h j)"
  using assms
  by (auto simp: NewSubscriber_def Let_def chan_subs_def inbox_def sub_channels_def fun_eq_iff)

lemma wf_NewSubscriber: "wf_hub h \<Longrightarrow> NewSubscriber h = (i, h') \<Longrightarrow> wf_hub h'"
proof -
  assume wf: "wf_hub h" and new: "NewSubscriber h = (i, h')"
  note simps = NewSubscriber_simps [OF new]
  have "i |\<notin>| fmdom (subscribers h)" using wf simps(1) by (auto simp: wf_hub_def)
  then have "i |\<notin>| chan_subs h ch" for ch using wf wf_hub_allocated by blast
  with wf show "wf_hub h'" by (auto simp: wf_hub_def simps)
qed

lemma fold_Unsubscribe:
  "chan_subs (fold (\<lambda>ch h. snd (Unsubscribe i ch h)) chs h) c =
     (if c \<in> set chs then chan_subs h c |-| {|i|} else chan_subs h c)"
  "sub_channels (fold (\<lambda>ch h. snd (Unsubscribe i ch h)) chs h) j =
     (if j = i then sub_channels h j |-| fset_of_list chs else sub_channels h j)"
  by (induction chs arbitrary: h) (auto simp: chan_subs_Unsubscribe sub_channels_Unsubscribe)

lemma wf_UnsubscribeAll: "wf_hub h \<Longrightarrow> wf_hub (UnsubscribeAll is i h)"
proof -
  have "wf_hub (fold (\<lambda>ch h. snd (Unsubscribe i ch h)) chs h)" if "wf_hub h" for chs
    using that by (induction chs arbitrary: h) (auto simp: wf_Unsubscribe)
  then show "wf_hub h \<Longrightarrow> wf_hub (UnsubscribeAll is i h)"
    by (simp add: UnsubscribeAll_def)
qed

lemma chan_subs_UnsubscribeAll:
  "wf_hub h \<Longrightarrow> chan_subs (UnsubscribeAll is i h) c = chan_subs h c |-| {|i|}"
  by (auto simp: UnsubscribeAll_def fold_Unsubscribe Channels_def wf_hub_def)

lemma sub_channels_UnsubscribeAll:
  "sub_channels (UnsubscribeAll is i h) j = (if j = i then {||} else sub_channels h j)"
  by (auto simp: UnsubscribeAll_def fold_Unsubscribe Channels_def fset_of_list_elem)

subsection \<open>Publishing\<close>

lemma deliver_frame [simp]:
  "subs (snd (deliver m i st)) = subs (snd st)"
  "nextID (snd (deliver m i st)) = nextID (snd st)"
  "fmdom (subscribers (snd (deliver m i st))) = fmdom (subscribers (snd st))"
  "chan_subs (snd (deliver m i st)) = chan_subs (snd st)"
  "sub_channels (snd (deliver m i st)) = sub_channels (snd st)"
  by (auto simp: deliver_def fun_eq_iff subscriber_sel split: prod.splits)

lemma fold_deliver_frame:
  "subs (snd (fold (deliver m) xs st)) = subs (snd st)"
  "nextID (snd (fold (deliver m) xs st)) = nextID (snd st)"
  "fmdom (subscribers (snd (fold (deliver m) xs st))) = fmdom (subscribers (snd st))"
  "chan_subs (snd (fold (deliver m) xs st)) = chan_subs (snd st)"
  "sub_channels (snd (fold (deliver m) xs st)) = sub_channels (snd st)"
  by (induction xs arbitrary: st) simp_all

lemma deliver_inbox:
  "i |\<in>| fmdom (subscribers (snd st)) \<Longrightarrow>
   inbox (snd (deliver m i st)) j =
     (if j = i \<and> length (inbox (snd st) j) < inboxSize then inbox (snd st) j @ [m] else inbox (snd st) j)"
  "fst (deliver m i st) = fst st + (if length (inbox (snd st) i) < inboxSize then 1 else 0)"
  by (auto simp: deliver_def subscriber_sel split: prod.splits)

lemma fold_deliver:
  assumes "distinct xs" "\<forall>i \<in> set xs. i |\<in>| fmdom (subscribers (snd st))"
  shows "inbox (snd (fold (deliver m) xs st)) j =
      (if j \<in> set xs \<and> length (inbox (snd st) j) < inboxSize then inbox (snd st) j @ [m]
       else inbox (snd st) j)"
    and "fst (fold (deliver m) xs st) =
      fst st + card {i \<in> set xs. length (inbox (snd st) i) < inboxSize}"
  using assms
proof (induction xs arbitrary: st)
  case (Cons i xs)
  {
    case 1
    with Cons.IH(1) [of "deliver m i st"] show ?case by (auto simp: deliver_inbox)
  next
    case 2
    have "{k \<in> set xs. length (inbox (snd (deliver m i st)) k) < inboxSize}
        = {k \<in> set xs. length (inbox (snd st) k) < inboxSize}"
      using 2 by (auto simp: deliver_inbox)
    moreover have "{k \<in> set (i # xs). length (inbox (snd st) k) < inboxSize} =
        (if length (inbox (snd st) i) < inboxSize
         then insert i {k \<in> set xs. length (inbox (snd st) k) < inboxSize}
         else {k \<in> set xs. length (inbox (snd st) k) < inboxSize})"
      by auto
    ultimately show ?case
      using 2 Cons.IH(2) [of "deliver m i st"] by (simp add: deliver_inbox)
  }
qed simp_all

lemma Publish_inbox:
  assumes "wf_hub h" "Publish is ch p h = (n, h')"
  shows "inbox h' j =
      (if j |\<in>| chan_subs h ch \<and> length (inbox h j) < inboxSize
       then inbox h j @ [\<lparr>Channel = ch, Payload = p\<rparr>] else inbox h j)"
    and "n = card {i. i |\<in>| chan_subs h ch \<and> length (inbox h i) < inboxSize}"
proof -
  have "\<forall>i \<in> set (range_fset is (chan_subs h ch)). i |\<in>| fmdom (subscribers (snd (0, h)))"
    using wf_hub_allocated [OF assms(1)] by simp
  note d = fold_deliver [OF distinct_range_fset this, of "\<lparr>Channel = ch, Payload = p\<rparr>"]
  from assms(2) d show "inbox h' j =
      (if j |\<in>| chan_subs h ch \<and> length (inbox h j) < inboxSize
       then inbox h j @ [\<lparr>Channel = ch, Payload = p\<rparr>] else inbox h j)"
    by (simp add: Publish_def)
  from assms(2) d show "n = card {i. i |\<in>| chan_subs h ch \<and> length (inbox h i) < inboxSize}"
    by (simp add: Publish_def)
qed

lemma Publish_frame:
  assumes "Publish is ch p h = (n, h')"
  shows "subs h' = subs h" "nextID h' = nextID h" "fmdom (subscribers h') = fmdom (subscribers h)"
    "chan_subs h' = chan_subs h" "sub_channels h' = sub_channels h"
  using fold_deliver_frame [of "\<lparr>Channel = ch, Payload = p\<rparr>" "range_fset is (chan_subs h ch)" "(0, h)"]
    assms by (simp_all add: Publish_def)

lemma wf_Publish: "wf_hub h \<Longrightarrow> wf_hub (snd (Publish is ch p h))"
proof -
  assume wf: "wf_hub h"
  obtain n h' where P: "Publish is ch p h = (n, h')" by fastforce
  from wf have "length (inbox h j) \<le> inboxSize" for j by (simp add: wf_hub_def)
  then have "length (inbox h' j) \<le> inboxSize" for j
    by (simp add: Publish_inbox(1) [OF wf P] Suc_le_eq)
  with wf show ?thesis by (simp add: wf_hub_def P Publish_frame [OF P])
qed

subsection \<open>Properties\<close>

text \<open>C22: \<open>PUBLISH\<close> appends the message to the inbox of every subscriber of the channel that has room,
  touches no other inbox, drops it for the others instead of waiting, and returns the number of
  inboxes it reached; the subscriptions stay as they are.\<close>

theorem Publish_delivers:
  assumes "wf_hub h"
  shows "(\<forall>j. inbox (snd (Publish is ch p h)) j =
      (if (j, ch) \<in> subscriptions h \<and> length (inbox h j) < inboxSize
       then inbox h j @ [\<lparr>Channel = ch, Payload = p\<rparr>] else inbox h j)) \<and>
    fst (Publish is ch p h) = card {j. (j, ch) \<in> subscriptions h \<and> length (inbox h j) < inboxSize} \<and>
    subscriptions (snd (Publish is ch p h)) = subscriptions h"
proof -
  obtain n h' where P: "Publish is ch p h = (n, h')" by fastforce
  with Publish_inbox [OF assms P] Publish_frame(4) [OF P] show ?thesis
    by (simp add: subscriptions_def)
qed

definition sample_hub :: Hub where
  "sample_hub = snd (Subscribe 1 ''news'' (snd (NewSubscriber NewHub)))"

lemma sample_hub_ok: "wf_hub sample_hub" "inbox sample_hub 1 = []" "(1, ''news'') \<in> subscriptions sample_hub"
proof -
  obtain i h where n: "NewSubscriber NewHub = (i, h)" by fastforce
  note s = NewSubscriber_simps [OF n]
  have i: "i = 1" using s(1) by (simp add: NewHub_def)
  have "wf_hub h" by (rule wf_NewSubscriber [OF wf_NewHub n])
  moreover have "1 |\<in>| fmdom (subscribers h)" using s(5) i by simp
  ultimately show "wf_hub sample_hub" by (simp add: sample_hub_def n wf_Subscribe)
  show "inbox sample_hub 1 = []" using s(6) i by (simp add: sample_hub_def n)
  show "(1, ''news'') \<in> subscriptions sample_hub"
    by (simp add: sample_hub_def n subscriptions_def chan_subs_Subscribe)
qed

theorem Publish_delivers_witness:
  "inbox (snd (Publish [] ''news'' ''hi'' sample_hub)) 1 = [\<lparr>Channel = ''news'', Payload = ''hi''\<rparr>]"
  using Publish_delivers [OF sample_hub_ok(1), of "[]" "''news''" "''hi''"] sample_hub_ok(2,3)
  by (simp add: inboxSize_def)

text \<open>C33: The hub's table and the subscribers' own sets describe the same subscriptions, and the
  operations change them as their names say: \<open>Subscribe\<close> adds one pair, \<open>Unsubscribe\<close> removes one,
  \<open>UnsubscribeAll\<close> removes a subscriber's, whatever order its channels are ranged over.\<close>

theorem subscriptions_consistent:
  assumes "wf_hub h" "i |\<in>| fmdom (subscribers h)"
  shows "subscriptions h = {(j, ch). ch |\<in>| sub_channels h j} \<and>
    (wf_hub (snd (Subscribe i ch h)) \<and> subscriptions (snd (Subscribe i ch h)) = insert (i, ch) (subscriptions h)) \<and>
    (wf_hub (snd (Unsubscribe i ch h)) \<and> subscriptions (snd (Unsubscribe i ch h)) = subscriptions h - {(i, ch)}) \<and>
    (wf_hub (UnsubscribeAll is i h) \<and> subscriptions (UnsubscribeAll is i h) = {p \<in> subscriptions h. fst p \<noteq> i})"
proof -
  have "subscriptions h = {(j, ch). ch |\<in>| sub_channels h j}"
    using assms(1) by (auto simp: subscriptions_def wf_hub_def)
  moreover have "subscriptions (snd (Subscribe i ch h)) = insert (i, ch) (subscriptions h)"
    by (auto simp: subscriptions_def chan_subs_Subscribe split: if_splits)
  moreover have "subscriptions (snd (Unsubscribe i ch h)) = subscriptions h - {(i, ch)}"
    by (auto simp: subscriptions_def chan_subs_Unsubscribe split: if_splits)
  moreover have "subscriptions (UnsubscribeAll is i h) = {p \<in> subscriptions h. fst p \<noteq> i}"
    by (auto simp: subscriptions_def chan_subs_UnsubscribeAll [OF assms(1)])
  ultimately show ?thesis
    by (intro conjI wf_Subscribe [OF assms] wf_Unsubscribe [OF assms(1)] wf_UnsubscribeAll [OF assms(1)])
qed

theorem subscriptions_consistent_witness:
  "subscriptions (snd (Unsubscribe 1 ''news'' sample_hub)) = subscriptions sample_hub - {(1, ''news'')}"
proof -
  have "1 |\<in>| fmdom (subscribers sample_hub)"
    using wf_hub_allocated [OF sample_hub_ok(1)] sample_hub_ok(3) by (auto simp: subscriptions_def)
  from subscriptions_consistent [OF sample_hub_ok(1) this] show ?thesis by blast
qed

end
