(* ===== verification/Aof.thy ===== *)
theory Aof
  imports Resp
begin

section \<open>The append-only file (internal/aof)\<close>

text \<open>
  The file is the string of its bytes: it is opened with \<open>O_APPEND\<close>, so every write goes
  to its end, wherever the replay left the read position. This is the file as a reader
  sees it; \<open>fsync\<close>, crashes and errors of the file system are in \<open>AofFile\<close>. \<open>Replay\<close> is the
  loop of \<open>AOF.Replay\<close> over the state of the callback; its result tells how the loop
  ended, and \<open>None\<close> is a panic, of the callback or of the reader's \<open>make\<close>.
\<close>

definition aof_Append :: "Value list \<Rightarrow> string \<Rightarrow> string" where
  "aof_Append args file = file @ Marshal (Array args)"

datatype 'e replay_end = ReplayDone | ReadFailed read_error | CallbackFailed 'e

type_synonym ('s, 'e) replay_fn = "Value list \<Rightarrow> 's \<Rightarrow> ('e option \<times> 's) option"

function Replay :: "('s, 'e) replay_fn \<Rightarrow> string \<Rightarrow> 's \<Rightarrow> ('e replay_end \<times> 's) option" where
  "Replay fn file st =
     (case Read file of
        Inl err \<Rightarrow>
          (if err = MakeslicePanic then None
           else if err = EOF then Some (ReplayDone, st) else Some (ReadFailed err, st))
      | Inr (v, rest) \<Rightarrow>
          (case fn (vElems v) st of
             None \<Rightarrow> None
           | Some (Some e, st') \<Rightarrow> Some (CallbackFailed e, st')
           | Some (None, st') \<Rightarrow> Replay fn rest st'))"
  by pat_completeness auto
termination
  by (relation "measure (\<lambda>(fn, file, st). length file)") (auto dest: Read_shorter)

declare Replay.simps [simp del]

subsection \<open>Replaying what was appended\<close>

text \<open>The file after appending the commands \<open>cs\<close> to an empty one.\<close>

definition aof_file :: "Value list list \<Rightarrow> string" where
  "aof_file cs = fold aof_Append cs []"

text \<open>What a callback that does not fail makes of a list of commands.\<close>

fun run_all :: "('s, 'e) replay_fn \<Rightarrow> Value list list \<Rightarrow> 's \<Rightarrow> ('e replay_end \<times> 's) option" where
  "run_all fn [] st = Some (ReplayDone, st)"
| "run_all fn (c # cs) st =
     (case fn c st of
        None \<Rightarrow> None
      | Some (Some e, st') \<Rightarrow> Some (CallbackFailed e, st')
      | Some (None, st') \<Rightarrow> run_all fn cs st')"

lemma fold_aof_Append: "fold aof_Append cs f = f @ concat (map (\<lambda>c. Marshal (Array c)) cs)"
  by (induction cs arbitrary: f) (simp_all add: aof_Append_def)

lemma aof_file_Nil [simp]: "aof_file [] = []"
  by (simp add: aof_file_def)

lemma aof_file_Cons [simp]: "aof_file (c # cs) = Marshal (Array c) @ aof_file cs"
  by (simp add: aof_file_def fold_aof_Append aof_Append_def)

lemma aof_file_snoc: "aof_Append c (aof_file cs) = aof_file (cs @ [c])"
  by (simp add: aof_file_def)

lemma aof_file_append: "aof_file (cs @ ds) = aof_file cs @ aof_file ds"
  by (induction cs) simp_all

lemma vElems_Array [simp]: "vElems (Array c) = c"
  by (simp add: value_defs)

lemma Replay_append:
  assumes "list_all (\<lambda>c. wire_ok (Array c)) cs"
  shows "Replay fn (aof_file cs @ rest) st =
    (case run_all fn cs st of
       Some (ReplayDone, st') \<Rightarrow> Replay fn rest st' | r \<Rightarrow> r)"
  using assms
proof (induction cs arbitrary: st)
  case (Cons c cs)
  then show ?case
    by (subst Replay.simps)
      (auto simp: resp_codec.dec_enc split: option.split prod.split)
qed simp

lemma Replay_aof_file:
  "list_all (\<lambda>c. wire_ok (Array c)) cs \<Longrightarrow> Replay fn (aof_file cs) st = run_all fn cs st"
  using Replay_append [of cs fn "[]" st]
  by (simp add: Replay.simps [of fn "[]"] resp_codec.dec_empty split: option.split prod.split replay_end.split)

lemma run_all_append:
  "run_all fn (cs @ ds) st =
    (case run_all fn cs st of Some (ReplayDone, st') \<Rightarrow> run_all fn ds st' | r \<Rightarrow> r)"
  by (induction cs arbitrary: st) (auto split: option.split prod.split)

subsection \<open>Properties\<close>

text \<open>A log written by \<open>Append\<close> replays as the commands in the order they were appended: the
  callback sees each command's arguments once, until it fails or the log is done, and the reader never
  stops early or loses its place.\<close>

theorem Replay_in_order:
  assumes "list_all (\<lambda>c. wire_ok (Array c)) cs"
  shows "Replay fn (fold aof_Append cs []) st = run_all fn cs st"
  using Replay_aof_file [OF assms] by (simp add: aof_file_def)

theorem Replay_in_order_witness:
  "Replay (\<lambda>c n. Some (None :: unit option, n @ [length c]))
     (fold aof_Append [[Bulk ''SET'', Bulk ''k'', Bulk ''v''], [Bulk ''FLUSHALL'']] []) [] =
   Some (ReplayDone, [3, 1])"
  using Replay_in_order [of "[[Bulk ''SET'', Bulk ''k'', Bulk ''v''], [Bulk ''FLUSHALL'']]"
      "\<lambda>c n. Some (None :: unit option, n @ [length c])" "[]"]
  by (simp add: value_defs maxAlloc_def sizeofValue_def)

end
