(* ===== verification/Dispatch.thy ===== *)
theory Dispatch
  imports StoreCommands PubSub Aof
begin

section \<open>Contexts, the registry and dispatch (internal/command)\<close>

text \<open>
  \<open>context.go\<close>, \<open>registry.go\<close>, \<open>transaction.go\<close> and \<open>pubsub.go\<close>. A handler either works
  on the store alone, or on the connection's context and the hub, or is \<open>exec\<close>, which
  dispatches the queued commands. \<open>Dispatch\<close> and \<open>exec\<close> call each other; the depth of
  these calls is the first argument of \<open>Dispatch\<close>, and \<open>None\<close> is a panic or a depth that
  did not suffice. Depth 2 always suffices (\<open>Dispatch_total\<close>), because a queue never holds
  a command that bypasses the queue.

  The shared state of the server is a \<open>World\<close>: the store, the hub and the bytes of the
  append-only file. The environments \<open>es\<close> of a request give one \<open>Env\<close> for the request
  itself and one for each command that \<open>EXEC\<close> runs.
\<close>

subsection \<open>Definitions: context.go\<close>

record QueuedCommand =
  qName :: string
  qArgs :: "Value list"

text \<open>\<open>OnWrite\<close> is whether the hook is set; the hook appends to the append-only file.\<close>

record Context =
  OnWrite :: bool
  sub :: "nat option"
  inTx :: bool
  queue :: "QueuedCommand list"
  txError :: bool

record World =
  wstore :: Store
  whub :: Hub
  waof :: string

definition NewContext :: Context where
  "NewContext = \<lparr>OnWrite = False, sub = None, inTx = False, queue = [], txError = False\<rparr>"

text \<open>\<open>Context.Subscriber\<close> allocates the inbox on first use.\<close>

definition ctx_Subscriber :: "Context \<Rightarrow> Hub \<Rightarrow> nat \<times> Context \<times> Hub" where
  "ctx_Subscriber ctx h =
     (case sub ctx of
        Some i \<Rightarrow> (i, ctx, h)
      | None \<Rightarrow> (let (i, h') = NewSubscriber h in (i, ctx\<lparr>sub := Some i\<rparr>, h')))"

definition InSubscriberMode :: "Context \<Rightarrow> Hub \<Rightarrow> bool" where
  "InSubscriberMode ctx h = (case sub ctx of None \<Rightarrow> False | Some i \<Rightarrow> ChannelCount h i > 0)"

definition ctx_Close :: "nat list \<Rightarrow> Context \<Rightarrow> Hub \<Rightarrow> Hub" where
  "ctx_Close is ctx h = (case sub ctx of None \<Rightarrow> h | Some i \<Rightarrow> UnsubscribeAll is i h)"

subsection \<open>Definitions: registry.go, the specifications\<close>

type_synonym conn_handler =
  "Env \<Rightarrow> Context \<Rightarrow> Hub \<Rightarrow> Value list \<Rightarrow> (Value \<times> Context \<times> Hub) option"

datatype Handler = StoreHandler store_handler | ConnHandler conn_handler | ExecHandler

record Spec =
  Name :: string
  SHandler :: Handler
  Arity :: int
  MinArity :: int
  SWrite :: bool

definition exact :: "string \<Rightarrow> Handler \<Rightarrow> int \<Rightarrow> Spec" where
  "exact n h a = \<lparr>Name = n, SHandler = h, Arity = a, MinArity = 0, SWrite = False\<rparr>"

definition at_least :: "string \<Rightarrow> Handler \<Rightarrow> int \<Rightarrow> Spec" where
  "at_least n h m = \<lparr>Name = n, SHandler = h, Arity = - 1, MinArity = m, SWrite = False\<rparr>"

definition writes :: "Spec \<Rightarrow> Spec" where
  "writes sp = sp\<lparr>SWrite := True\<rparr>"

definition CheckArity :: "Spec \<Rightarrow> nat \<Rightarrow> bool" where
  "CheckArity spec argc =
     (if Arity spec \<ge> 0 then int argc = Arity spec else int argc \<ge> MinArity spec)"

subsection \<open>Definitions: transaction.go and pubsub.go\<close>

definition multi_cmd :: conn_handler where
  "multi_cmd env ctx h args =
     (if inTx ctx then Some (Errorf ''ERR MULTI calls can not be nested'', ctx, h)
      else Some (OK, ctx\<lparr>inTx := True, queue := [], txError := False\<rparr>, h))"

definition discard_cmd :: conn_handler where
  "discard_cmd env ctx h args =
     (if \<not> inTx ctx then Some (Errorf ''ERR DISCARD without MULTI'', ctx, h)
      else Some (OK, ctx\<lparr>inTx := False, queue := [], txError := False\<rparr>, h))"

definition sub_frame :: "string \<Rightarrow> string \<Rightarrow> nat \<Rightarrow> Value" where
  "sub_frame verb ch n = Array [Bulk verb, Bulk ch, int_reply n]"

fun subscribe_loop :: "nat \<Rightarrow> string list \<Rightarrow> Hub \<Rightarrow> Value list \<times> Hub" where
  "subscribe_loop i [] h = ([], h)"
| "subscribe_loop i (ch # chs) h =
     (let (n, h1) = Subscribe i ch h; (fs, h2) = subscribe_loop i chs h1
      in (sub_frame ''subscribe'' ch n # fs, h2))"

definition subscribe_cmd :: conn_handler where
  "subscribe_cmd env ctx h args =
     (let (i, ctx', h1) = ctx_Subscriber ctx h;
          (frames, h2) = subscribe_loop i (argStrings args) h1
      in Some (MultiFrame frames, ctx', h2))"

fun unsubscribe_loop :: "nat \<Rightarrow> string list \<Rightarrow> Hub \<Rightarrow> Value list \<times> Hub" where
  "unsubscribe_loop i [] h = ([], h)"
| "unsubscribe_loop i (ch # chs) h =
     (let (n, h1) = Unsubscribe i ch h; (fs, h2) = unsubscribe_loop i chs h1
      in (sub_frame ''unsubscribe'' ch n # fs, h2))"

definition unsubscribe_cmd :: conn_handler where
  "unsubscribe_cmd env ctx h args =
     (let (i, ctx', h1) = ctx_Subscriber ctx h;
          chs = (if args = [] then Channels (iter env) h1 i else argStrings args)
      in if chs = []
         then Some (MultiFrame [Array [Bulk ''unsubscribe'', NullBulk, IntV 0]], ctx', h1)
         else (let (frames, h2) = unsubscribe_loop i chs h1 in Some (MultiFrame frames, ctx', h2)))"

definition publish_cmd :: conn_handler where
  "publish_cmd env ctx h args = do {
     ch \<leftarrow> arg 0 args; p \<leftarrow> arg 1 args;
     (let (n, h') = Publish (iter env) ch p h in Some (int_reply n, ctx, h')) }"

subsection \<open>Definitions: registry.go, the table\<close>

definition connectionCommands :: "Spec list" where
  "connectionCommands =
    [at_least ''PING'' (StoreHandler ping_cmd) 0,
     exact ''ECHO'' (StoreHandler echo_cmd) 1]"

definition genericCommands :: "Spec list" where
  "genericCommands =
    [writes (at_least ''DEL'' (StoreHandler del_cmd) 1),
     at_least ''EXISTS'' (StoreHandler exists_cmd) 1,
     writes (exact ''EXPIRE'' (StoreHandler expire_cmd) 2),
     writes (exact ''PEXPIRE'' (StoreHandler pexpire_cmd) 2),
     exact ''TTL'' (StoreHandler ttl_cmd) 1,
     exact ''PTTL'' (StoreHandler pttl_cmd) 1,
     writes (exact ''PERSIST'' (StoreHandler persist_cmd) 1),
     exact ''TYPE'' (StoreHandler type_cmd) 1,
     exact ''KEYS'' (StoreHandler keys_cmd) 1,
     writes (exact ''RENAME'' (StoreHandler rename_cmd) 2)]"

definition stringCommands :: "Spec list" where
  "stringCommands =
    [writes (at_least ''SET'' (StoreHandler set_cmd) 2),
     exact ''GET'' (StoreHandler get_cmd) 1,
     writes (exact ''GETSET'' (StoreHandler getSet_cmd) 2),
     writes (exact ''SETNX'' (StoreHandler setNX_cmd) 2),
     writes (exact ''SETEX'' (StoreHandler setEX_cmd) 3),
     writes (at_least ''MSET'' (StoreHandler mset_cmd) 2),
     at_least ''MGET'' (StoreHandler mget_cmd) 1,
     writes (exact ''INCR'' (StoreHandler incr_cmd) 1),
     writes (exact ''INCRBY'' (StoreHandler incrBy_cmd) 2),
     writes (exact ''DECR'' (StoreHandler decr_cmd) 1),
     writes (exact ''DECRBY'' (StoreHandler decrBy_cmd) 2),
     writes (exact ''APPEND'' (StoreHandler append_cmd) 2),
     exact ''STRLEN'' (StoreHandler strlen_cmd) 1]"

definition hashCommands :: "Spec list" where
  "hashCommands =
    [writes (at_least ''HSET'' (StoreHandler hset_cmd) 3),
     exact ''HGET'' (StoreHandler hget_cmd) 2,
     exact ''HGETALL'' (StoreHandler hgetall_cmd) 1,
     writes (at_least ''HDEL'' (StoreHandler hdel_cmd) 2),
     exact ''HEXISTS'' (StoreHandler hexists_cmd) 2,
     exact ''HLEN'' (StoreHandler hlen_cmd) 1,
     exact ''HKEYS'' (StoreHandler hkeys_cmd) 1,
     exact ''HVALS'' (StoreHandler hvals_cmd) 1,
     at_least ''HMGET'' (StoreHandler hmget_cmd) 2,
     writes (exact ''HINCRBY'' (StoreHandler hincrby_cmd) 3)]"

definition listCommands :: "Spec list" where
  "listCommands =
    [writes (at_least ''LPUSH'' (StoreHandler lpush_cmd) 2),
     writes (at_least ''RPUSH'' (StoreHandler rpush_cmd) 2),
     writes (exact ''LPOP'' (StoreHandler lpop_cmd) 1),
     writes (exact ''RPOP'' (StoreHandler rpop_cmd) 1),
     exact ''LLEN'' (StoreHandler llen_cmd) 1,
     exact ''LRANGE'' (StoreHandler lrange_cmd) 3,
     exact ''LINDEX'' (StoreHandler lindex_cmd) 2]"

definition setCommands :: "Spec list" where
  "setCommands =
    [writes (at_least ''SADD'' (StoreHandler sadd_cmd) 2),
     writes (at_least ''SREM'' (StoreHandler srem_cmd) 2),
     exact ''SMEMBERS'' (StoreHandler smembers_cmd) 1,
     exact ''SISMEMBER'' (StoreHandler sismember_cmd) 2,
     exact ''SCARD'' (StoreHandler scard_cmd) 1]"

definition zsetCommands :: "Spec list" where
  "zsetCommands =
    [writes (at_least ''ZADD'' (StoreHandler zadd_cmd) 3),
     exact ''ZSCORE'' (StoreHandler zscore_cmd) 2,
     writes (at_least ''ZREM'' (StoreHandler zrem_cmd) 2),
     exact ''ZCARD'' (StoreHandler zcard_cmd) 1,
     exact ''ZRANK'' (StoreHandler zrank_cmd) 2,
     at_least ''ZRANGE'' (StoreHandler zrange_cmd) 3]"

definition serverCommands :: "Spec list" where
  "serverCommands =
    [writes (exact ''FLUSHALL'' (StoreHandler flushall_cmd) 0),
     exact ''DBSIZE'' (StoreHandler dbsize_cmd) 0,
     at_least ''INFO'' (StoreHandler info_cmd) 0]"

definition pubsubCommands :: "Spec list" where
  "pubsubCommands =
    [at_least ''SUBSCRIBE'' (ConnHandler subscribe_cmd) 1,
     at_least ''UNSUBSCRIBE'' (ConnHandler unsubscribe_cmd) 0,
     writes (exact ''PUBLISH'' (ConnHandler publish_cmd) 2)]"

definition transactionCommands :: "Spec list" where
  "transactionCommands =
    [exact ''MULTI'' (ConnHandler multi_cmd) 0,
     exact ''EXEC'' ExecHandler 0,
     exact ''DISCARD'' (ConnHandler discard_cmd) 0]"

definition register :: "Spec list \<Rightarrow> (string, Spec) fmap \<Rightarrow> (string, Spec) fmap" where
  "register specs r = fold (\<lambda>s r. fmupd (Name s) s r) specs r"

definition NewRegistry :: "(string, Spec) fmap" where
  "NewRegistry =
     register transactionCommands (register pubsubCommands (register serverCommands
       (register zsetCommands (register setCommands (register listCommands
         (register hashCommands (register stringCommands (register genericCommands
           (register connectionCommands fmempty)))))))))"

definition Lookup :: "'a Runtime_scheme \<Rightarrow> string \<Rightarrow> Spec option" where
  "Lookup rt name = fmlookup NewRegistry (ToUpper rt name)"

subsection \<open>Definitions: registry.go, validation and dispatch\<close>

fun quoted_args :: "string list \<Rightarrow> string" where
  "quoted_args [] = []"
| "quoted_args [a] = CHR 0x27 # a @ [CHR 0x27]"
| "quoted_args (a # as) = CHR 0x27 # a @ [CHR 0x27, CHR '' ''] @ quoted_args as"

definition unknownCommand :: "string \<Rightarrow> Value list \<Rightarrow> Value" where
  "unknownCommand name args =
     Errorf (''ERR unknown command '' @ [CHR 0x27] @ name @ [CHR 0x27] @ '', with args beginning with: ''
             @ quoted_args (argStrings args))"

definition wrong_arity :: "'a Runtime_scheme \<Rightarrow> string \<Rightarrow> Value" where
  "wrong_arity rt name =
     Errorf (''ERR wrong number of arguments for '' @ [CHR 0x27] @ ToLower rt name @ [CHR 0x27]
             @ '' command'')"

definition validate :: "'a Runtime_scheme \<Rightarrow> string \<Rightarrow> Value list \<Rightarrow> Value + Spec" where
  "validate rt name args =
     (case Lookup rt name of
        None \<Rightarrow> Inl (unknownCommand name args)
      | Some spec \<Rightarrow>
          (if \<not> CheckArity spec (length args) then Inl (wrong_arity rt name) else Inr spec))"

definition queueCommand :: "Env \<Rightarrow> string \<Rightarrow> Value list \<Rightarrow> Context \<Rightarrow> Value \<times> Context" where
  "queueCommand env name args ctx =
     (case validate env name args of
        Inl errVal \<Rightarrow> (errVal, ctx\<lparr>txError := True\<rparr>)
      | Inr _ \<Rightarrow>
          (Str ''QUEUED'', ctx\<lparr>queue := queue ctx @ [\<lparr>qName = name, qArgs = args\<rparr>]\<rparr>))"

definition commandsBypassingQueue :: "string list" where
  "commandsBypassingQueue = [''MULTI'', ''EXEC'', ''DISCARD'']"

type_synonym dispatcher =
  "(nat \<Rightarrow> Env) \<Rightarrow> World \<Rightarrow> Context \<Rightarrow> string \<Rightarrow> Value list \<Rightarrow> (Value \<times> World \<times> Context) option"

text \<open>The loop of \<open>exec\<close>; the \<open>i\<close>-th command runs in the environment \<open>es i\<close>.\<close>

fun exec_queue ::
    "dispatcher \<Rightarrow> (nat \<Rightarrow> Env) \<Rightarrow> nat \<Rightarrow> QueuedCommand list \<Rightarrow> World \<Rightarrow> Context
     \<Rightarrow> (Value list \<times> World \<times> Context) option" where
  "exec_queue disp es i [] w ctx = Some ([], w, ctx)"
| "exec_queue disp es i (qc # qs) w ctx =
     (case disp (\<lambda>_. es i) w ctx (qName qc) (qArgs qc) of
        None \<Rightarrow> None
      | Some (v, w1, ctx1) \<Rightarrow>
          (case exec_queue disp es (Suc i) qs w1 ctx1 of
             None \<Rightarrow> None
           | Some (vs, w2, ctx2) \<Rightarrow> Some (v # vs, w2, ctx2)))"

definition exec_cmd ::
    "dispatcher \<Rightarrow> (nat \<Rightarrow> Env) \<Rightarrow> World \<Rightarrow> Context \<Rightarrow> (Value \<times> World \<times> Context) option" where
  "exec_cmd disp es w ctx =
     (if \<not> inTx ctx then Some (Errorf ''ERR EXEC without MULTI'', w, ctx)
      else (let q = queue ctx; dirty = txError ctx;
                ctx' = ctx\<lparr>inTx := False, queue := [], txError := False\<rparr>
            in if dirty
               then Some (Errorf ''EXECABORT Transaction discarded because of previous errors.'', w, ctx')
               else case exec_queue disp es 1 q w ctx' of
                   None \<Rightarrow> None
                 | Some (rs, w', ctx'') \<Rightarrow> Some (Array rs, w', ctx'')))"

definition run_handler ::
    "dispatcher \<Rightarrow> (nat \<Rightarrow> Env) \<Rightarrow> Handler \<Rightarrow> World \<Rightarrow> Context \<Rightarrow> Value list
     \<Rightarrow> (Value \<times> World \<times> Context) option" where
  "run_handler disp es hdl w ctx args =
     (case hdl of
        StoreHandler h \<Rightarrow>
          map_option (\<lambda>(v, st). (v, w\<lparr>wstore := st\<rparr>, ctx)) (h (es 0) (wstore w) args)
      | ConnHandler h \<Rightarrow>
          map_option (\<lambda>(v, ctx', hub). (v, w\<lparr>whub := hub\<rparr>, ctx')) (h (es 0) ctx (whub w) args)
      | ExecHandler \<Rightarrow> exec_cmd disp es w ctx)"

text \<open>
  The hook. The append is taken to succeed: the hook of \<open>handleConn\<close> only reports an error,
  so a failing append changes nothing but the file, which \<open>AofFile\<close> models.
\<close>

definition log_write :: "Spec \<Rightarrow> Value \<Rightarrow> string \<Rightarrow> Value list \<Rightarrow> Context \<Rightarrow> World \<Rightarrow> World" where
  "log_write spec result upper args ctx w =
     (if SWrite spec \<and> vType result \<noteq> TypeError \<and> OnWrite ctx
      then w\<lparr>waof := aof_Append (Bulk upper # args) (waof w)\<rparr> else w)"

fun Dispatch :: "nat \<Rightarrow> dispatcher" where
  "Dispatch 0 es w ctx name args = None"
| "Dispatch (Suc d) es w ctx name args =
     (let upper = ToUpper (es 0) name
      in if inTx ctx \<and> upper \<notin> set commandsBypassingQueue
         then (let (v, ctx') = queueCommand (es 0) upper args ctx in Some (v, w, ctx'))
         else case validate (es 0) upper args of
             Inl errVal \<Rightarrow> Some (errVal, w, ctx)
           | Inr spec \<Rightarrow>
               (case run_handler (Dispatch d) es (SHandler spec) w ctx args of
                  None \<Rightarrow> None
                | Some (result, w', ctx') \<Rightarrow>
                    Some (result, log_write spec result upper args ctx' w', ctx')))"

declare Dispatch.simps [simp del]

end
