(* ===== verification/Server.thy ===== *)
theory Server
  imports Dispatch
begin

section \<open>Start-up and connections (internal/server)\<close>

text \<open>
  \<open>server.go\<close>: \<open>New\<close> with the replay of the log, and the table of connections.
  \<open>connection.go\<close>: the request loop of \<open>handleConn\<close> over the bytes that a client sends,
  and the frame that \<open>forwardPubSub\<close> relays. A request is served in one step; the
  \<open>i\<close>-th request of a connection runs in the environments \<open>es i\<close>. \<open>None\<close> is a panic,
  which takes the whole process down.

  Clients are served one after the other here; \<open>Concurrency\<close> interleaves them, and
  \<open>Lifecycle\<close> has the listener and the shutdown.
\<close>

subsection \<open>Definitions: server.go\<close>

record Config =
  Addr :: string
  AOFPath :: string

datatype start_error = OpenFailed | ReplayFailed read_error

text \<open>The callback of \<open>replay\<close>; its state is the server, the throwaway context and the count.\<close>

definition replay_fn :: "(nat \<Rightarrow> nat \<Rightarrow> Env) \<Rightarrow> (World \<times> Context \<times> nat, start_error) replay_fn" where
  "replay_fn es args st =
     (case st of (w, ctx, n) \<Rightarrow>
        if length args = 0 then Some (None, st)
        else case Dispatch 2 (es n) w ctx (vStr (hd args)) (tl args) of
            None \<Rightarrow> None
          | Some (result, w', ctx') \<Rightarrow> Some (None, (w', ctx', n + 1)))"

definition server_replay :: "(nat \<Rightarrow> nat \<Rightarrow> Env) \<Rightarrow> World \<Rightarrow> (start_error + World) option" where
  "server_replay es w =
     (case Replay (replay_fn es) (waof w) (w, NewContext, 0) of
        None \<Rightarrow> None
      | Some (CallbackFailed e, _) \<Rightarrow> Some (Inl e)
      | Some (ReadFailed e, _) \<Rightarrow> Some (Inl (ReplayFailed e))
      | Some (ReplayDone, (w', _)) \<Rightarrow> Some (Inr w'))"

text \<open>\<open>file\<close> is what opening the log finds there, \<open>None\<close> if it cannot be opened.\<close>

definition server_New :: "(nat \<Rightarrow> nat \<Rightarrow> Env) \<Rightarrow> Config \<Rightarrow> string option \<Rightarrow> (start_error + World) option" where
  "server_New es cfg file =
     (let w = \<lparr>wstore = New, whub = NewHub, waof = []\<rparr>
      in if AOFPath cfg \<noteq> []
         then (case file of
                 None \<Rightarrow> Some (Inl OpenFailed)
               | Some f \<Rightarrow> server_replay es (w\<lparr>waof := f\<rparr>))
         else Some (Inr w))"

definition trackConn :: "nat \<Rightarrow> nat fset \<Rightarrow> nat fset" where
  "trackConn c conns = finsert c conns"

definition untrackConn :: "nat \<Rightarrow> nat fset \<Rightarrow> nat fset" where
  "untrackConn c conns = conns |-| {|c|}"

subsection \<open>Definitions: connection.go\<close>

definition subscriberModeAllowed :: "string list" where
  "subscriberModeAllowed = [''SUBSCRIBE'', ''UNSUBSCRIBE'', ''PING'']"

definition invalid_request :: Value where
  "invalid_request = Errorf ''ERR invalid request, expected a non-empty array''"

definition not_in_subscriber_mode :: "'a Runtime_scheme \<Rightarrow> string \<Rightarrow> Value" where
  "not_in_subscriber_mode rt name =
     Errorf (''ERR Can'' @ [CHR 0x27] @ ''t execute '' @ [CHR 0x27] @ ToLower rt name @ [CHR 0x27]
             @ '': only (UN)SUBSCRIBE / PING are allowed in subscriber mode'')"

text \<open>
  One round of the loop after the read: the frame to write, whether a failing write ends
  the loop, and the new state.
\<close>

definition handle_request ::
    "(nat \<Rightarrow> Env) \<Rightarrow> World \<Rightarrow> Context \<Rightarrow> Value \<Rightarrow> (Value \<times> bool \<times> World \<times> Context) option" where
  "handle_request es w ctx req =
     (if vType req \<noteq> TypeArray \<or> length (vElems req) = 0
      then Some (invalid_request, False, w, ctx)
      else (let name = ToUpper (es 0) (vStr (hd (vElems req))); args = tl (vElems req)
            in if InSubscriberMode ctx (whub w) \<and> name \<notin> set subscriberModeAllowed
               then Some (not_in_subscriber_mode (es 0) name, False, w, ctx)
               else map_option (\<lambda>(result, w', ctx'). (result, True, w', ctx'))
                      (Dispatch 2 es w ctx name args)))"

definition conn_open :: "bool \<Rightarrow> World \<Rightarrow> World \<times> Context" where
  "conn_open aof w =
     (let ctx = NewContext\<lparr>OnWrite := aof\<rparr>; (i, ctx', h) = ctx_Subscriber ctx (whub w)
      in (w\<lparr>whub := h\<rparr>, ctx'))"

text \<open>
  The loop: \<open>wok i\<close> tells whether the write of the \<open>i\<close>-th reply succeeds. A write that fails
  counts as having sent nothing, although some frames of a reply may have gone out before.
\<close>

function serve ::
    "(nat \<Rightarrow> bool) \<Rightarrow> (nat \<Rightarrow> nat \<Rightarrow> Env) \<Rightarrow> nat \<Rightarrow> string \<Rightarrow> World \<Rightarrow> Context \<Rightarrow> string
     \<Rightarrow> (string \<times> World \<times> Context) option" where
  "serve wok es i input w ctx out =
     (case Read input of
        Inl err \<Rightarrow> if err = MakeslicePanic then None else Some (out, w, ctx)
      | Inr (req, rest) \<Rightarrow>
          (case handle_request (es i) w ctx req of
             None \<Rightarrow> None
           | Some (v, checked, w', ctx') \<Rightarrow>
               (if wok i then serve wok es (Suc i) rest w' ctx' (out @ Write v)
                else if checked then Some (out, w', ctx')
                else serve wok es (Suc i) rest w' ctx' out)))"
  by pat_completeness auto
termination
  by (relation "measure (\<lambda>(wok, es, i, input, w, ctx, out). length input)") (auto dest: Read_shorter)

declare serve.simps [simp del]

definition handleConn ::
    "bool \<Rightarrow> (nat \<Rightarrow> bool) \<Rightarrow> (nat \<Rightarrow> nat \<Rightarrow> Env) \<Rightarrow> nat list \<Rightarrow> string \<Rightarrow> World \<Rightarrow> (string \<times> World) option" where
  "handleConn aof wok es is input w =
     (let (w1, ctx) = conn_open aof w
      in case serve wok es 0 input w1 ctx [] of
          None \<Rightarrow> None
        | Some (out, w2, ctx') \<Rightarrow> Some (out, w2\<lparr>whub := ctx_Close is ctx' (whub w2)\<rparr>))"

text \<open>One round of \<open>forwardPubSub\<close> with a message in the inbox: the frame and the hub.\<close>

definition message_frame :: "Message \<Rightarrow> Value" where
  "message_frame m = Array [Bulk ''message'', Bulk (Channel m), Bulk (Payload m)]"

definition forwardPubSub :: "nat \<Rightarrow> Hub \<Rightarrow> (Value \<times> Hub) option" where
  "forwardPubSub i h = map_option (\<lambda>(m, h'). (message_frame m, h')) (receive i h)"

end
