(* ===== verification/Contract.thy ===== *)
theory Contract
  imports Dispatch
begin

section \<open>What every command handler guarantees\<close>

text \<open>
  The contract between the registry and the handlers. A handler on the store, given as
  many arguments as its specification asks for and a well-formed store, returns (it
  neither indexes out of range nor assigns into a nil map) and leaves a well-formed
  store; and if it replies with an error, or is not flagged as a write, it leaves the
  store as it was. The contract is proved for each handler and then for the whole table.
\<close>

definition store_command_ok :: "store_handler \<Rightarrow> (nat \<Rightarrow> bool) \<Rightarrow> bool \<Rightarrow> bool" where
  "store_command_ok h ar wr \<longleftrightarrow>
     (\<forall>env s args. ar (length args) \<longrightarrow> wf_store s \<longrightarrow>
        (\<exists>v s'. h env s args = Some (v, s') \<and> wf_store s')) \<and>
     (\<forall>env s args v s'. h env s args = Some (v, s') \<longrightarrow> vType v = TypeError \<or> \<not> wr \<longrightarrow> s' = s)"

lemma store_command_okI:
  assumes "\<And>env s args. ar (length args) \<Longrightarrow> wf_store s \<Longrightarrow>
      \<exists>v s'. h env s args = Some (v, s') \<and> wf_store s'"
    and "\<And>env s args v s'. h env s args = Some (v, s') \<Longrightarrow> vType v = TypeError \<or> \<not> wr \<Longrightarrow> s' = s"
  shows "store_command_ok h ar wr"
  using assms unfolding store_command_ok_def by blast

text \<open>A handler that only reads.\<close>

lemma read_command_okI:
  assumes "\<And>env s args. ar (length args) \<Longrightarrow> \<exists>v. h env s args = Some (v, s)"
    and "\<And>env s args v s'. h env s args = Some (v, s') \<Longrightarrow> s' = s"
  shows "store_command_ok h ar wr"
  using assms unfolding store_command_ok_def by blast

subsection \<open>Arguments and replies\<close>

lemma arg_in [simp]: "i < length args \<Longrightarrow> arg i args = Some (vStr (args ! i))"
  by (simp add: arg_def)

lemma nonempty_if_length [simp]:
  "numeral n \<le> length xs \<Longrightarrow> xs \<noteq> []" "Suc k \<le> length xs \<Longrightarrow> xs \<noteq> []"
  by auto

lemma arg_SomeD: "arg i args = Some a \<Longrightarrow> i < length args \<and> a = vStr (args ! i)"
  by (simp add: arg_def split: if_splits)

lemma args_from_in [simp]: "i \<le> length args \<Longrightarrow> args_from i args = Some (drop i args)"
  by (simp add: args_from_def)

lemma vType_replies [simp]:
  "vType (Str s) = CHR ''+''" "vType OK = CHR ''+''" "vType (Errorf s) = CHR ''-''"
  "vType (IntV n) = CHR '':''" "vType (Bulk s) = CHR ''$''" "vType NullBulk = CHR ''$''"
  "vType (Array vs) = CHR ''*''" "vType NullArray = CHR ''*''" "vType (BulkStrings ss) = CHR ''*''"
  "vType (MultiFrame vs) = CHR ''*''" "vType (int_reply k) = CHR '':''" "vType (bool_reply b) = CHR '':''"
  by (simp_all add: value_defs int_reply_def bool_reply_def)

lemma vType_opt_reply [simp]: "vType (opt_reply v) = CHR ''$''"
  by (simp add: opt_reply_def split: option.split)

lemma finish_errD:
  "finish f r = (v, s') \<Longrightarrow> vType v = TypeError \<Longrightarrow> (\<And>x. vType (f x) \<noteq> TypeError) \<Longrightarrow> \<exists>e. r = (Inl e, s')"
  by (cases r) (auto simp: finish_def reply_or_err_def split: sum.splits)

lemma finish_errD':
  "(v, s') = finish f r \<Longrightarrow> vType v = TypeError \<Longrightarrow> (\<And>x. vType (f x) \<noteq> TypeError) \<Longrightarrow> \<exists>e. r = (Inl e, s')"
  by (metis finish_errD)

lemma snd_finish [simp]: "snd (finish f r) = snd r"
  by (simp add: finish_def)

lemma finish_wf_iff [simp]: "(\<exists>v s'. finish f r = (v, s') \<and> wf_store s') \<longleftrightarrow> wf_store (snd r)"
  by (simp add: finish_def)

lemma map_finish_total:
  "\<exists>r s'. op = Some (r, s') \<and> wf_store s' \<Longrightarrow> \<exists>v s'. map_option (finish f) op = Some (v, s') \<and> wf_store s'"
  by (auto simp: finish_def)

lemma map_finish_errD:
  "map_option (finish f) op = Some (v, s') \<Longrightarrow> vType v = TypeError \<Longrightarrow> (\<And>x. vType (f x) \<noteq> TypeError)
    \<Longrightarrow> \<exists>e. op = Some (Inl e, s')"
  by (auto dest!: finish_errD)

subsection \<open>Reading handlers\<close>

lemmas read_handler_defs = ping_cmd_def echo_cmd_def exists_cmd_def ttl_cmd_def pttl_cmd_def
  type_cmd_def keys_cmd_def get_cmd_def mget_cmd_def strlen_cmd_def hget_cmd_def hgetall_cmd_def
  hexists_cmd_def hlen_cmd_def hkeys_cmd_def hvals_cmd_def hmget_cmd_def llen_cmd_def lrange_cmd_def
  lindex_cmd_def smembers_cmd_def sismember_cmd_def scard_cmd_def zscore_cmd_def zcard_cmd_def
  zrank_cmd_def zrange_cmd_def dbsize_cmd_def info_cmd_def

lemma read_any_ok:
  "store_command_ok ping_cmd (\<lambda>k. int k \<ge> 0) wr"
  "store_command_ok exists_cmd (\<lambda>k. int k \<ge> 1) wr"
  "store_command_ok mget_cmd (\<lambda>k. int k \<ge> 1) wr"
  "store_command_ok dbsize_cmd (\<lambda>k. int k = 0) wr"
  "store_command_ok info_cmd (\<lambda>k. int k \<ge> 0) wr"
  "store_command_ok hmget_cmd (\<lambda>k. int k \<ge> 2) wr"
  by (rule read_command_okI; force simp: read_handler_defs bind_eq_Some_conv split: if_splits)+

lemma read_one_ok:
  "store_command_ok echo_cmd (\<lambda>k. int k = 1) wr"
  "store_command_ok ttl_cmd (\<lambda>k. int k = 1) wr"
  "store_command_ok pttl_cmd (\<lambda>k. int k = 1) wr"
  "store_command_ok type_cmd (\<lambda>k. int k = 1) wr"
  "store_command_ok keys_cmd (\<lambda>k. int k = 1) wr"
  "store_command_ok get_cmd (\<lambda>k. int k = 1) wr"
  "store_command_ok strlen_cmd (\<lambda>k. int k = 1) wr"
  "store_command_ok hgetall_cmd (\<lambda>k. int k = 1) wr"
  "store_command_ok hlen_cmd (\<lambda>k. int k = 1) wr"
  "store_command_ok hkeys_cmd (\<lambda>k. int k = 1) wr"
  "store_command_ok hvals_cmd (\<lambda>k. int k = 1) wr"
  "store_command_ok llen_cmd (\<lambda>k. int k = 1) wr"
  "store_command_ok smembers_cmd (\<lambda>k. int k = 1) wr"
  "store_command_ok scard_cmd (\<lambda>k. int k = 1) wr"
  "store_command_ok zcard_cmd (\<lambda>k. int k = 1) wr"
  by (rule read_command_okI; auto simp: read_handler_defs bind_eq_Some_conv)+

lemma read_two_ok:
  "store_command_ok hget_cmd (\<lambda>k. int k = 2) wr"
  "store_command_ok hexists_cmd (\<lambda>k. int k = 2) wr"
  "store_command_ok sismember_cmd (\<lambda>k. int k = 2) wr"
  "store_command_ok zscore_cmd (\<lambda>k. int k = 2) wr"
  "store_command_ok zrank_cmd (\<lambda>k. int k = 2) wr"
  "store_command_ok lindex_cmd (\<lambda>k. int k = 2) wr"
  by (rule read_command_okI; auto simp: read_handler_defs bind_eq_Some_conv split: option.splits)+

lemma read_range_ok:
  "store_command_ok lrange_cmd (\<lambda>k. int k = 3) wr"
  "store_command_ok zrange_cmd (\<lambda>k. int k \<ge> 3) wr"
  by (rule read_command_okI; auto simp: read_handler_defs bind_eq_Some_conv split: option.splits if_splits)+

subsection \<open>Writing handlers\<close>

lemmas write_simps = bind_eq_Some_conv case_prod_beta Let_def wf_intros

lemmas op_errs = GetSet_err IncrBy_err Append_err HDel_err LPop_err RPop_err SRem_err ZRem_err
  HSet_err HIncrBy_err LPush_err RPush_err SAdd_err ZAdd_err

lemma generic_write_ok:
  "store_command_ok del_cmd (\<lambda>k. int k \<ge> 1) True"
  "store_command_ok (expire_unit u) (\<lambda>k. int k = 2) True"
  "store_command_ok persist_cmd (\<lambda>k. int k = 1) True"
  "store_command_ok flushall_cmd (\<lambda>k. int k = 0) True"
  by (rule store_command_okI;
      auto simp: del_cmd_def expire_unit_def persist_cmd_def flushall_cmd_def write_simps
        split: option.splits)+

lemma expire_ok: "store_command_ok expire_cmd (\<lambda>k. int k = 2) True"
  unfolding expire_cmd_def by (rule generic_write_ok)

lemma pexpire_ok: "store_command_ok pexpire_cmd (\<lambda>k. int k = 2) True"
  unfolding pexpire_cmd_def by (rule generic_write_ok)

lemma rename_ok: "store_command_ok rename_cmd (\<lambda>k. int k = 2) True"
proof (rule store_command_okI)
  fix env :: Env and s :: Store and args :: "Value list"
  assume a: "int (length args) = 2" "wf_store s"
  obtain e s' where r: "Rename (clk env) (vStr (args ! 0)) (vStr (args ! 1)) s = (e, s')" by fastforce
  with a(2) have "wf_store s'" by (metis snd_conv wf_Rename)
  with a r show "\<exists>v s'. rename_cmd env s args = Some (v, s') \<and> wf_store s'"
    by (cases e) (simp_all add: rename_cmd_def)
qed (auto simp: rename_cmd_def Rename_def bind_eq_Some_conv split: option.splits)

lemma set_ok: "store_command_ok set_cmd (\<lambda>k. int k \<ge> 2) True"
proof (rule store_command_okI)
  fix env :: Env and s :: Store and args :: "Value list"
  assume "int (length args) \<ge> 2" "wf_store s"
  then show "\<exists>v s'. set_cmd env s args = Some (v, s') \<and> wf_store s'"
    by (cases "set_options env (argStrings (drop 2 args)) no_options")
      (auto simp: set_cmd_def wf_intros)
next
  fix env :: Env and s s' :: Store and args :: "Value list" and v
  assume "set_cmd env s args = Some (v, s')" "vType v = TypeError \<or> \<not> True"
  then show "s' = s"
    by (cases "set_options env (argStrings (drop 2 args)) no_options")
      (auto simp: set_cmd_def bind_eq_Some_conv Set_not_err split: if_splits dest!: finish_errD)
qed

lemma string_write_ok:
  "store_command_ok getSet_cmd (\<lambda>k. int k = 2) True"
  "store_command_ok setNX_cmd (\<lambda>k. int k = 2) True"
  "store_command_ok incr_cmd (\<lambda>k. int k = 1) True"
  "store_command_ok decr_cmd (\<lambda>k. int k = 1) True"
  "store_command_ok append_cmd (\<lambda>k. int k = 2) True"
  by (rule store_command_okI;
      auto simp: getSet_cmd_def setNX_cmd_def incr_cmd_def decr_cmd_def append_cmd_def
        incrByAmount_def write_simps Set_not_err dest!: finish_errD dest: op_errs)+

lemma string_parse_ok:
  "store_command_ok setEX_cmd (\<lambda>k. int k = 3) True"
  "store_command_ok incrBy_cmd (\<lambda>k. int k = 2) True"
  "store_command_ok decrBy_cmd (\<lambda>k. int k = 2) True"
  by (rule store_command_okI;
      auto simp: setEX_cmd_def incrBy_cmd_def decrBy_cmd_def incrByAmount_def write_simps Set_not_err
        split: option.splits dest!: finish_errD dest: op_errs)+

lemma collect_pairs_Some:
  "even (length xs) \<Longrightarrow> \<exists>m'. collect_pairs xs m = Some m' \<and> (xs \<noteq> [] \<or> m \<noteq> fmempty \<longrightarrow> m' \<noteq> fmempty)"
  by (induction xs m rule: collect_pairs.induct) auto

lemma mset_ok: "store_command_ok mset_cmd (\<lambda>k. int k \<ge> 2) True"
proof (rule store_command_okI)
  fix env :: Env and s :: Store and args :: "Value list"
  assume "int (length args) \<ge> 2" "wf_store s"
  then show "\<exists>v s'. mset_cmd env s args = Some (v, s') \<and> wf_store s'"
    using wf_MSet [of s] collect_pairs_Some [of args fmempty]
    by (auto simp: mset_cmd_def mod_2_eq_odd)
qed (auto simp: mset_cmd_def bind_eq_Some_conv split: if_splits)


lemma container_remove_ok:
  "store_command_ok hdel_cmd (\<lambda>k. int k \<ge> 2) True"
  "store_command_ok lpop_cmd (\<lambda>k. int k = 1) True"
  "store_command_ok rpop_cmd (\<lambda>k. int k = 1) True"
  "store_command_ok srem_cmd (\<lambda>k. int k \<ge> 2) True"
  "store_command_ok zrem_cmd (\<lambda>k. int k \<ge> 2) True"
  by (rule store_command_okI;
      auto simp: hdel_cmd_def lpop_cmd_def rpop_cmd_def srem_cmd_def zrem_cmd_def write_simps
        dest!: finish_errD dest: op_errs)+

lemma drop_one_neq_Nil: "int (length xs) \<ge> 2 \<Longrightarrow> argStrings (drop 1 xs) \<noteq> []"
  by (simp add: argStrings_def)

lemma push_ok:
  assumes "\<And>c k vs s. wf_store s \<Longrightarrow> vs \<noteq> [] \<Longrightarrow> \<exists>r s'. push c k vs s = Some (r, s') \<and> wf_store s'"
    and "\<And>c k vs s e s'. push c k vs s = Some (Inl e, s') \<Longrightarrow> s' = s"
  shows "store_command_ok
    (\<lambda>env st args. do { k \<leftarrow> arg 0 args; vs \<leftarrow> args_from 1 args;
       map_option (finish int_reply) (push (clk env) k (argStrings vs) st) }) (\<lambda>k. int k \<ge> 2) True"
proof (rule store_command_okI)
  fix env :: Env and s :: Store and args :: "Value list"
  assume a: "int (length args) \<ge> 2" "wf_store s"
  have "arg 0 args = Some (vStr (args ! 0))" "args_from 1 args = Some (drop 1 args)"
    using a(1) by auto
  then show "\<exists>v s'. do { k \<leftarrow> arg 0 args; vs \<leftarrow> args_from 1 args;
       map_option (finish int_reply) (push (clk env) k (argStrings vs) s) } = Some (v, s') \<and> wf_store s'"
    using map_finish_total [OF assms(1) [OF a(2) drop_one_neq_Nil [OF a(1)]]]
    by (simp del: map_option_eq_Some)
qed (auto simp: bind_eq_Some_conv dest!: finish_errD dest: assms(2))

lemma container_push_ok:
  "store_command_ok lpush_cmd (\<lambda>k. int k \<ge> 2) True"
  "store_command_ok rpush_cmd (\<lambda>k. int k \<ge> 2) True"
  "store_command_ok sadd_cmd (\<lambda>k. int k \<ge> 2) True"
  unfolding lpush_cmd_def [abs_def] rpush_cmd_def [abs_def] sadd_cmd_def [abs_def]
  by (rule push_ok [OF LPush_total LPush_err] push_ok [OF RPush_total RPush_err]
        push_ok [OF SAdd_total SAdd_err]; assumption)+

lemma hset_ok: "store_command_ok hset_cmd (\<lambda>k. int k \<ge> 3) True"
proof (rule store_command_okI)
  fix env :: Env and s :: Store and args :: "Value list"
  assume a: "int (length args) \<ge> 3" "wf_store s"
  show "\<exists>v s'. hset_cmd env s args = Some (v, s') \<and> wf_store s'"
  proof (cases "length args mod 2 = 1")
    case True
    then have "even (length (drop 1 args))" by (auto simp: odd_iff_mod_2_eq_one)
    then obtain m where "collect_pairs (drop 1 args) fmempty = Some m" "m \<noteq> fmempty"
      using collect_pairs_Some [of "drop 1 args" fmempty] a(1) by auto
    with True a show ?thesis
      using map_finish_total [OF HSet_total]
      by (simp add: hset_cmd_def nonempty_if_length del: map_option_eq_Some)
  qed (use a in \<open>simp add: hset_cmd_def\<close>)
qed (auto simp: hset_cmd_def bind_eq_Some_conv split: if_splits dest!: finish_errD dest: op_errs)

lemma hincrby_ok: "store_command_ok hincrby_cmd (\<lambda>k. int k = 3) True"
proof (rule store_command_okI)
  fix env :: Env and s :: Store and args :: "Value list"
  assume "int (length args) = 3" "wf_store s"
  then show "\<exists>v s'. hincrby_cmd env s args = Some (v, s') \<and> wf_store s'"
    using map_finish_total [OF HIncrBy_total]
    by (simp add: hincrby_cmd_def del: map_option_eq_Some split: option.split)
qed (auto simp: hincrby_cmd_def bind_eq_Some_conv split: option.splits dest!: finish_errD dest: op_errs)

lemma collect_scores_Some:
  "even (length xs) \<Longrightarrow>
   (\<exists>e. collect_scores env xs m = Some (Inl e)) \<or>
   (\<exists>m'. collect_scores env xs m = Some (Inr m') \<and> (xs \<noteq> [] \<or> m \<noteq> fmempty \<longrightarrow> m' \<noteq> fmempty))"
proof (induction env xs m rule: collect_scores.induct)
  case (2 rt x rest m)
  then show ?case by (cases rest) (auto split: option.split)
qed simp

lemma zadd_ok: "store_command_ok zadd_cmd (\<lambda>k. int k \<ge> 3) True"
proof (rule store_command_okI)
  fix env :: Env and s :: Store and args :: "Value list"
  assume a: "int (length args) \<ge> 3" "wf_store s"
  show "\<exists>v s'. zadd_cmd env s args = Some (v, s') \<and> wf_store s'"
  proof (cases "length args mod 2 = 1")
    case True
    then have "even (length (drop 1 args))" by (auto simp: odd_iff_mod_2_eq_one)
    from collect_scores_Some [OF this, of env fmempty] show ?thesis
    proof (elim disjE exE conjE)
      fix m assume "collect_scores env (drop 1 args) fmempty = Some (Inr m)"
        "drop 1 args \<noteq> [] \<or> fmempty \<noteq> fmempty \<longrightarrow> m \<noteq> fmempty"
      with True a show ?thesis
        using map_finish_total [OF ZAdd_total]
        by (simp add: zadd_cmd_def nonempty_if_length del: map_option_eq_Some)
    qed (use a True in \<open>simp add: zadd_cmd_def\<close>)
  qed (use a in \<open>simp add: zadd_cmd_def\<close>)
next
  fix env :: Env and s s' :: Store and args :: "Value list" and v
  assume r: "zadd_cmd env s args = Some (v, s')" and e: "vType v = TypeError \<or> \<not> True"
  show "s' = s"
  proof (cases "collect_scores env (drop 1 args) fmempty")
    case (Some c)
    with r e show ?thesis
      by (cases c) (auto simp: zadd_cmd_def bind_eq_Some_conv split: if_splits
          dest!: finish_errD dest: op_errs)
  qed (use r in \<open>simp add: zadd_cmd_def split: if_splits\<close>)
qed

subsection \<open>Handlers on the connection and the hub\<close>

text \<open>The subscriber that a connection holds is one the hub has handed out.\<close>

definition sub_alloc :: "Context \<Rightarrow> Hub \<Rightarrow> bool" where
  "sub_alloc ctx h = (case sub ctx of None \<Rightarrow> True | Some i \<Rightarrow> i |\<in>| fmdom (subscribers h))"

text \<open>
  What a step of a connection never does: it takes no inbox away from the hub, changes its
  own inbox or somebody else's subscriptions, or touches the persistence hook.
\<close>

definition conn_grows :: "Context \<Rightarrow> Hub \<Rightarrow> Context \<Rightarrow> Hub \<Rightarrow> bool" where
  "conn_grows ctx h ctx' h' \<longleftrightarrow>
     fmdom (subscribers h) |\<subseteq>| fmdom (subscribers h') \<and> OnWrite ctx' = OnWrite ctx \<and>
     (sub ctx \<noteq> None \<longrightarrow> sub ctx' = sub ctx) \<and>
     (\<forall>j ch. sub ctx' \<noteq> Some j \<longrightarrow> (j |\<in>| chan_subs h' ch \<longleftrightarrow> j |\<in>| chan_subs h ch))"

definition same_tx :: "Context \<Rightarrow> Context \<Rightarrow> bool" where
  "same_tx ctx ctx' \<longleftrightarrow> inTx ctx' = inTx ctx \<and> queue ctx' = queue ctx \<and> txError ctx' = txError ctx"

lemma conn_grows_refl [simp]: "conn_grows ctx h ctx h"
  by (simp add: conn_grows_def)

lemma conn_grows_trans [trans]:
  "conn_grows c1 h1 c2 h2 \<Longrightarrow> conn_grows c2 h2 c3 h3 \<Longrightarrow> conn_grows c1 h1 c3 h3"
proof -
  assume 12: "conn_grows c1 h1 c2 h2" and 23: "conn_grows c2 h2 c3 h3"
  have "(j |\<in>| chan_subs h3 ch) = (j |\<in>| chan_subs h1 ch)" if "sub c3 \<noteq> Some j" for j ch
  proof -
    have "sub c2 \<noteq> Some j" using 23 that by (auto simp: conn_grows_def)
    with 12 23 that show ?thesis by (simp add: conn_grows_def)
  qed
  with 12 23 show "conn_grows c1 h1 c3 h3" by (auto simp: conn_grows_def)
qed

text \<open>
  On the right number of arguments the handler returns, keeps the hub well-formed and the
  connection's subscriber allocated. \<open>MULTI\<close> and \<open>DISCARD\<close> (\<open>tx\<close>) leave the hub alone
  and start or drop the transaction; the others keep its state.
\<close>

definition conn_command_ok :: "conn_handler \<Rightarrow> (nat \<Rightarrow> bool) \<Rightarrow> bool \<Rightarrow> bool" where
  "conn_command_ok f ar tx \<longleftrightarrow>
     (\<forall>env ctx h args. ar (length args) \<longrightarrow> wf_hub h \<longrightarrow> sub_alloc ctx h \<longrightarrow>
        (\<exists>v ctx' h'. f env ctx h args = Some (v, ctx', h') \<and> wf_hub h' \<and> sub_alloc ctx' h'
           \<and> conn_grows ctx h ctx' h' \<and>
           (if tx then h' = h \<and> (same_tx ctx ctx' \<or> queue ctx' = []) else same_tx ctx ctx')))"

lemma multi_ok: "conn_command_ok multi_cmd ar True"
  by (auto simp: conn_command_ok_def multi_cmd_def sub_alloc_def conn_grows_def same_tx_def)

lemma discard_ok: "conn_command_ok discard_cmd ar True"
  by (auto simp: conn_command_ok_def discard_cmd_def sub_alloc_def conn_grows_def same_tx_def)

lemma publish_ok: "conn_command_ok publish_cmd (\<lambda>k. int k = 2) False"
proof -
  have "wf_hub h \<Longrightarrow> Publish is ch p h = (n, h') \<Longrightarrow>
      wf_hub h' \<and> fmdom (subscribers h') = fmdom (subscribers h) \<and> chan_subs h' = chan_subs h"
    for "is" ch p h n h' using wf_Publish [of h "is" ch p] Publish_frame(3,4) [of "is" ch p h n h'] by simp
  then show ?thesis
    unfolding conn_command_ok_def publish_cmd_def
    by (auto simp: sub_alloc_def conn_grows_def same_tx_def split: prod.split option.splits)
qed

lemma ctx_Subscriber_ok:
  assumes "wf_hub h" "sub_alloc ctx h" "ctx_Subscriber ctx h = (i, ctx', h')"
  shows "wf_hub h'" "sub ctx' = Some i" "i |\<in>| fmdom (subscribers h')"
    "conn_grows ctx h ctx' h'" "same_tx ctx ctx'"
  using assms wf_NewSubscriber [of h] NewSubscriber_simps(4,5) [of h]
  by (auto simp: ctx_Subscriber_def sub_alloc_def conn_grows_def same_tx_def split: option.splits prod.splits)

lemma subscribe_loop_ok:
  "wf_hub h \<Longrightarrow> i |\<in>| fmdom (subscribers h) \<Longrightarrow> subscribe_loop i chs h = (fs, h') \<Longrightarrow>
   wf_hub h' \<and> fmdom (subscribers h') = fmdom (subscribers h) \<and>
   (\<forall>j ch. j \<noteq> i \<longrightarrow> (j |\<in>| chan_subs h' ch) = (j |\<in>| chan_subs h ch))"
proof (induction chs arbitrary: h fs)
  case (Cons ch chs)
  obtain n h1 where s: "Subscribe i ch h = (n, h1)" by fastforce
  obtain fs' h2 where l: "subscribe_loop i chs h1 = (fs', h2)" by fastforce
  have "wf_hub h1" "fmdom (subscribers h1) = fmdom (subscribers h)"
    using wf_Subscribe [OF Cons.prems(1,2), of ch] fmdom_subscribers_ops(1) [of i ch h] s by simp_all
  moreover have "(j |\<in>| chan_subs h1 c) = (j |\<in>| chan_subs h c)" if "j \<noteq> i" for j c
    using that chan_subs_Subscribe [of i ch h c] s by (auto split: if_splits)
  ultimately show ?case using Cons.IH [of h1 fs'] Cons.prems s l by simp
qed simp

lemma unsubscribe_loop_ok:
  "wf_hub h \<Longrightarrow> unsubscribe_loop i chs h = (fs, h') \<Longrightarrow>
   wf_hub h' \<and> fmdom (subscribers h') = fmdom (subscribers h) \<and>
   (\<forall>j ch. j \<noteq> i \<longrightarrow> (j |\<in>| chan_subs h' ch) = (j |\<in>| chan_subs h ch))"
proof (induction chs arbitrary: h fs)
  case (Cons ch chs)
  obtain n h1 where s: "Unsubscribe i ch h = (n, h1)" by fastforce
  obtain fs' h2 where l: "unsubscribe_loop i chs h1 = (fs', h2)" by fastforce
  have "wf_hub h1" "fmdom (subscribers h1) = fmdom (subscribers h)"
    using wf_Unsubscribe [OF Cons.prems(1), of i ch] fmdom_subscribers_ops(2) [of i ch h] s by simp_all
  moreover have "(j |\<in>| chan_subs h1 c) = (j |\<in>| chan_subs h c)" if "j \<noteq> i" for j c
    using that chan_subs_Unsubscribe [of i ch h c] s by (auto split: if_splits)
  ultimately show ?case using Cons.IH [of h1 fs'] Cons.prems s l by simp
qed simp

lemma subscribe_ok: "conn_command_ok subscribe_cmd ar False"
proof -
  have "\<exists>v ctx' h'. subscribe_cmd env ctx h args = Some (v, ctx', h') \<and> wf_hub h' \<and> sub_alloc ctx' h'
      \<and> conn_grows ctx h ctx' h' \<and> same_tx ctx ctx'"
    if a: "wf_hub h" "sub_alloc ctx h" for env ctx h args
  proof -
    obtain i ctx' h1 where c: "ctx_Subscriber ctx h = (i, ctx', h1)" by (metis prod_cases3)
    obtain fs h2 where l: "subscribe_loop i (argStrings args) h1 = (fs, h2)" by fastforce
    note c' = ctx_Subscriber_ok [OF a c]
    with subscribe_loop_ok [OF c'(1,3) l] show ?thesis
      by (simp add: subscribe_cmd_def c l sub_alloc_def conn_grows_def)
  qed
  then show ?thesis by (simp add: conn_command_ok_def)
qed

lemma unsubscribe_ok: "conn_command_ok unsubscribe_cmd ar False"
proof -
  have "\<exists>v ctx' h'. unsubscribe_cmd env ctx h args = Some (v, ctx', h') \<and> wf_hub h' \<and> sub_alloc ctx' h'
      \<and> conn_grows ctx h ctx' h' \<and> same_tx ctx ctx'"
    if a: "wf_hub h" "sub_alloc ctx h" for env ctx h args
  proof -
    obtain i ctx' h1 where c: "ctx_Subscriber ctx h = (i, ctx', h1)" by (metis prod_cases3)
    define chs where "chs = (if args = [] then Channels (iter env) h1 i else argStrings args)"
    obtain fs h2 where l: "unsubscribe_loop i chs h1 = (fs, h2)" by fastforce
    note c' = ctx_Subscriber_ok [OF a c]
    with unsubscribe_loop_ok [OF c'(1) l] show ?thesis
      by (simp add: unsubscribe_cmd_def c l sub_alloc_def conn_grows_def flip: chs_def)
  qed
  then show ?thesis by (simp add: conn_command_ok_def)
qed

subsection \<open>The whole table\<close>

definition spec_ok :: "Spec \<Rightarrow> bool" where
  "spec_ok sp \<longleftrightarrow>
     (case SHandler sp of
        StoreHandler f \<Rightarrow>
          store_command_ok f (CheckArity sp) (SWrite sp) \<and> Name sp \<notin> set commandsBypassingQueue
      | ConnHandler f \<Rightarrow> conn_command_ok f (CheckArity sp) (Name sp \<in> set commandsBypassingQueue)
      | ExecHandler \<Rightarrow> Name sp \<in> set commandsBypassingQueue)"

definition argc_is :: "int \<Rightarrow> nat \<Rightarrow> bool" where
  "argc_is a = (\<lambda>k. int k = a)"

definition argc_ge :: "int \<Rightarrow> nat \<Rightarrow> bool" where
  "argc_ge m = (\<lambda>k. int k \<ge> m)"

lemma CheckArity_simps [simp]:
  "0 \<le> a \<Longrightarrow> CheckArity (exact n f a) = argc_is a"
  "CheckArity (at_least n f m) = argc_ge m"
  "CheckArity (writes sp) = CheckArity sp"
  by (simp_all add: CheckArity_def exact_def at_least_def writes_def argc_is_def argc_ge_def fun_eq_iff)

lemma spec_sel [simp]:
  "Name (exact n f a) = n" "Name (at_least n f a) = n" "Name (writes sp) = Name sp"
  "SHandler (exact n f a) = f" "SHandler (at_least n f a) = f" "SHandler (writes sp) = SHandler sp"
  "\<not> SWrite (exact n f a)" "\<not> SWrite (at_least n f a)" "SWrite (writes sp)"
  by (simp_all add: exact_def at_least_def writes_def)

lemmas command_oks = read_any_ok read_one_ok read_two_ok read_range_ok generic_write_ok expire_ok
  pexpire_ok rename_ok set_ok string_write_ok string_parse_ok mset_ok container_remove_ok
  container_push_ok hset_ok hincrby_ok zadd_ok multi_ok discard_ok publish_ok subscribe_ok unsubscribe_ok

lemmas command_lists = connectionCommands_def genericCommands_def stringCommands_def hashCommands_def
  listCommands_def setCommands_def zsetCommands_def serverCommands_def pubsubCommands_def
  transactionCommands_def

definition all_specs :: "Spec list" where
  "all_specs = connectionCommands @ genericCommands @ stringCommands @ hashCommands @ listCommands
     @ setCommands @ zsetCommands @ serverCommands @ pubsubCommands @ transactionCommands"

lemma all_specs_ok: "list_all spec_ok all_specs"
  by (simp add: all_specs_def command_lists spec_ok_def command_oks [folded argc_is_def argc_ge_def]
      commandsBypassingQueue_def)

lemma NewRegistry_fold: "NewRegistry = fold (\<lambda>s r. fmupd (Name s) s r) all_specs fmempty"
  by (simp add: NewRegistry_def register_def all_specs_def)

lemma fold_register_lookup:
  "fmlookup (fold (\<lambda>s r. fmupd (Name s) s r) ss r) n = Some sp \<Longrightarrow>
   fmlookup r n = Some sp \<or> sp \<in> set ss \<and> Name sp = n"
  by (induction ss arbitrary: r) (fastforce split: if_splits)+

lemma NewRegistry_lookup: "fmlookup NewRegistry n = Some sp \<Longrightarrow> sp \<in> set all_specs \<and> Name sp = n"
  using fold_register_lookup [of all_specs fmempty n sp] by (simp add: NewRegistry_fold)

end
