(* ===== verification/Dispatcher.thy ===== *)
theory Dispatcher
  imports Contract
begin

section \<open>Correctness of the dispatcher (internal/command)\<close>

text \<open>
  The client side of the handlers' contract. The locale \<open>command_table\<close> says what the
  registry promises of every entry; in it the dispatcher is shown to return on every
  request, to keep the invariant of the store, the hub and the connection, and to change
  the store only when it replies without an error. It is interpreted on the table that
  \<open>NewRegistry\<close> builds.
\<close>

subsection \<open>The state of a session\<close>

text \<open>What the requests of one process share, and what the model needs to know of it.\<close>

definition same_runtime :: "Runtime \<Rightarrow> (nat \<Rightarrow> Env) \<Rightarrow> bool" where
  "same_runtime rt es \<longleftrightarrow> (\<forall>i. Runtime.truncate (es i) = rt)"

definition upper_idem :: "Runtime \<Rightarrow> bool" where
  "upper_idem rt \<longleftrightarrow> (\<forall>s. ToUpper rt (ToUpper rt s) = ToUpper rt s)"

definition queued_ok :: "Runtime \<Rightarrow> QueuedCommand \<Rightarrow> bool" where
  "queued_ok rt qc \<longleftrightarrow>
     ToUpper rt (qName qc) = qName qc \<and> qName qc \<notin> set commandsBypassingQueue \<and>
     (case validate rt (qName qc) (qArgs qc) of Inl _ \<Rightarrow> False | Inr _ \<Rightarrow> True)"

definition session_ok :: "Runtime \<Rightarrow> World \<Rightarrow> Context \<Rightarrow> bool" where
  "session_ok rt w ctx \<longleftrightarrow>
     wf_store (wstore w) \<and> wf_hub (whub w) \<and> sub_alloc ctx (whub w) \<and>
     list_all (queued_ok rt) (queue ctx) \<and> (inTx ctx \<or> queue ctx = [])"

lemma truncate_runtime [simp]:
  "ToUpper (Runtime.truncate e) = ToUpper e" "ToLower (Runtime.truncate e) = ToLower e"
  "Lookup (Runtime.truncate e) = Lookup e" "validate (Runtime.truncate e) = validate e"
proof -
  show [simp]: "ToUpper (Runtime.truncate e) = ToUpper e" "ToLower (Runtime.truncate e) = ToLower e"
    by (simp_all add: fun_eq_iff ToUpper_def ToLower_def Runtime.truncate_def)
  show [simp]: "Lookup (Runtime.truncate e) = Lookup e"
    by (simp add: fun_eq_iff Lookup_def)
  show "validate (Runtime.truncate e) = validate e"
    by (simp add: fun_eq_iff validate_def wrong_arity_def split: option.split)
qed

lemma same_runtimeD:
  assumes "same_runtime rt es"
  shows "ToUpper (es i) = ToUpper rt" "validate (es i) = validate rt" "same_runtime rt (\<lambda>_. es i)"
  using assms truncate_runtime [of "es i"] by (auto simp: same_runtime_def)

lemma log_write_frame [simp]:
  "wstore (log_write sp v u args ctx w) = wstore w" "whub (log_write sp v u args ctx w) = whub w"
  by (simp_all add: log_write_def)

subsection \<open>The registry as the dispatcher sees it\<close>

locale command_table =
  fixes table :: "string \<Rightarrow> Spec option"
  assumes table_name: "table n = Some sp \<Longrightarrow> Name sp = n"
    and table_ok: "table n = Some sp \<Longrightarrow> spec_ok sp"
begin

lemma run_store_or_conn:
  assumes "table n = Some sp" "CheckArity sp (length args)" "SHandler sp \<noteq> ExecHandler"
    and "wf_store (wstore w)" "wf_hub (whub w)" "sub_alloc ctx (whub w)"
  shows "\<exists>v w' ctx'. run_handler disp es (SHandler sp) w ctx args = Some (v, w', ctx') \<and>
     wf_store (wstore w') \<and> wf_hub (whub w') \<and> sub_alloc ctx' (whub w') \<and>
     conn_grows ctx (whub w) ctx' (whub w') \<and>
     (same_tx ctx ctx' \<or> n \<in> set commandsBypassingQueue \<and> queue ctx' = []) \<and>
     (vType v = TypeError \<or> \<not> SWrite sp \<longrightarrow> wstore w' = wstore w)"
proof (cases "SHandler sp")
  case (StoreHandler f)
  with table_ok [OF assms(1)] have ok: "store_command_ok f (CheckArity sp) (SWrite sp)"
    by (simp add: spec_ok_def)
  then obtain v s' where r: "f (es 0) (wstore w) args = Some (v, s')" "wf_store s'"
    using assms(2,4) unfolding store_command_ok_def by blast
  then have "vType v = TypeError \<or> \<not> SWrite sp \<longrightarrow> s' = wstore w"
    using ok unfolding store_command_ok_def by blast
  with r assms(5,6) StoreHandler show ?thesis by (simp add: run_handler_def same_tx_def)
next
  case (ConnHandler f)
  with table_ok [OF assms(1)] table_name [OF assms(1)]
  have "conn_command_ok f (CheckArity sp) (n \<in> set commandsBypassingQueue)"
    by (simp add: spec_ok_def)
  then obtain v ctx' h' where r: "f (es 0) ctx (whub w) args = Some (v, ctx', h')" "wf_hub h'"
      "sub_alloc ctx' h'" "conn_grows ctx (whub w) ctx' h'"
      "if n \<in> set commandsBypassingQueue then h' = whub w \<and> (same_tx ctx ctx' \<or> queue ctx' = [])
       else same_tx ctx ctx'"
    using assms(2,5,6) unfolding conn_command_ok_def by blast
  with assms(4) ConnHandler show ?thesis by (auto simp: run_handler_def split: if_splits)
qed (use assms(3) in simp)

lemma table_not_exec:
  "table n = Some sp \<Longrightarrow> n \<notin> set commandsBypassingQueue \<Longrightarrow> SHandler sp \<noteq> ExecHandler"
  using table_ok [of n sp] table_name [of n sp] by (auto simp: spec_ok_def)

end

lemma NewRegistry_ok: "fmlookup NewRegistry n = Some sp \<Longrightarrow> Name sp = n \<and> spec_ok sp"
  using NewRegistry_lookup all_specs_ok by (auto simp: list_all_iff)

interpretation registry: command_table "fmlookup NewRegistry"
  by unfold_locales (simp_all add: NewRegistry_ok)

subsection \<open>The dispatcher returns and keeps the session's invariant\<close>

lemma validate_Inr:
  "validate rt n args = Inr sp \<longleftrightarrow> fmlookup NewRegistry (ToUpper rt n) = Some sp \<and> CheckArity sp (length args)"
  by (auto simp: validate_def Lookup_def split: option.splits)

lemma validate_err: "validate rt n args = Inl v \<Longrightarrow> vType v = TypeError"
  by (auto simp: validate_def unknownCommand_def wrong_arity_def split: option.splits if_splits)

text \<open>Outside a transaction, a request that is not a transaction command: no recursion.\<close>

lemma Dispatch_plain:
  assumes rt: "same_runtime rt es" and ok: "session_ok rt w ctx" and tx: "\<not> inTx ctx"
    and up: "ToUpper rt name = u" "ToUpper rt u = u" "u \<notin> set commandsBypassingQueue"
  shows "\<exists>v w' ctx'. Dispatch (Suc d) es w ctx name args = Some (v, w', ctx') \<and>
     session_ok rt w' ctx' \<and> conn_grows ctx (whub w) ctx' (whub w') \<and> same_tx ctx ctx' \<and>
     (vType v = TypeError \<longrightarrow> wstore w' = wstore w \<and> waof w' = waof w)"
proof (cases "validate rt u args")
  case (Inl v)
  with assms show ?thesis by (simp add: Dispatch.simps same_runtimeD [OF rt] same_tx_def)
next
  case (Inr sp)
  then have sp: "fmlookup NewRegistry u = Some sp" "CheckArity sp (length args)"
    using up(2) by (simp_all add: validate_Inr)
  obtain v w' ctx' where r: "run_handler (Dispatch d) es (SHandler sp) w ctx args = Some (v, w', ctx')"
      "wf_store (wstore w')" "wf_hub (whub w')" "sub_alloc ctx' (whub w')"
      "conn_grows ctx (whub w) ctx' (whub w')"
      "same_tx ctx ctx' \<or> u \<in> set commandsBypassingQueue \<and> queue ctx' = []"
      "vType v = TypeError \<or> \<not> SWrite sp \<longrightarrow> wstore w' = wstore w"
    using registry.run_store_or_conn [OF sp registry.table_not_exec [OF sp(1) up(3)]] ok
    unfolding session_ok_def by blast
  have "waof w' = waof w"
    using r(1) registry.table_not_exec [OF sp(1) up(3)]
    by (auto simp: run_handler_def split: Handler.splits)
  with r Inr ok tx up show ?thesis
    by (auto simp: Dispatch.simps same_runtimeD [OF rt] session_ok_def same_tx_def log_write_def)
qed

lemma exec_queue_ok:
  assumes rt: "same_runtime rt es"
  shows "list_all (queued_ok rt) q \<Longrightarrow> session_ok rt w ctx \<Longrightarrow> \<not> inTx ctx \<Longrightarrow>
    \<exists>vs w' ctx'. exec_queue (Dispatch (Suc d)) es i q w ctx = Some (vs, w', ctx') \<and>
      session_ok rt w' ctx' \<and> conn_grows ctx (whub w) ctx' (whub w') \<and> same_tx ctx ctx' \<and>
      length vs = length q"
proof (induction q arbitrary: i w ctx)
  case (Cons qc q)
  have qc: "ToUpper rt (qName qc) = qName qc" "qName qc \<notin> set commandsBypassingQueue"
    using Cons.prems(1) by (simp_all add: queued_ok_def)
  obtain v w1 c1 where 1: "Dispatch (Suc d) (\<lambda>_. es i) w ctx (qName qc) (qArgs qc) = Some (v, w1, c1)"
      "session_ok rt w1 c1" "conn_grows ctx (whub w) c1 (whub w1)" "same_tx ctx c1"
    using Dispatch_plain [OF same_runtimeD(3) [OF rt] Cons.prems(2,3) qc(1,1,2)] by blast
  then have "\<not> inTx c1" using Cons.prems(3) by (simp add: same_tx_def)
  with Cons.IH [of w1 c1 "Suc i"] Cons.prems(1) 1(2)
  obtain vs w2 c2 where 2: "exec_queue (Dispatch (Suc d)) es (Suc i) q w1 c1 = Some (vs, w2, c2)"
      "session_ok rt w2 c2" "conn_grows c1 (whub w1) c2 (whub w2)" "same_tx c1 c2" "length vs = length q"
    by auto
  from 1(3) 2(3) have "conn_grows ctx (whub w) c2 (whub w2)" by (rule conn_grows_trans)
  with 1(1,4) 2 show ?case by (simp add: same_tx_def)
qed (simp add: same_tx_def)


lemma exec_cmd_ok:
  assumes rt: "same_runtime rt es" and ok: "session_ok rt w ctx"
  shows "\<exists>v w' ctx'. exec_cmd (Dispatch (Suc d)) es w ctx = Some (v, w', ctx') \<and>
     session_ok rt w' ctx' \<and> conn_grows ctx (whub w) ctx' (whub w') \<and> \<not> inTx ctx' \<and>
     (vType v = TypeError \<longrightarrow> w' = w)"
proof (cases "inTx ctx \<and> \<not> txError ctx")
  case True
  define c0 where "c0 = ctx\<lparr>inTx := False, queue := [], txError := False\<rparr>"
  have c0: "session_ok rt w c0" "conn_grows ctx (whub w) c0 (whub w)" "\<not> inTx c0"
    using ok by (simp_all add: c0_def session_ok_def sub_alloc_def conn_grows_def)
  have "list_all (queued_ok rt) (queue ctx)" using ok by (simp add: session_ok_def)
  from exec_queue_ok [OF rt this c0(1,3), of d 1]
  obtain vs w' c' where r: "exec_queue (Dispatch (Suc d)) es 1 (queue ctx) w c0 = Some (vs, w', c')"
      "session_ok rt w' c'" "conn_grows c0 (whub w) c' (whub w')" "same_tx c0 c'"
    by blast
  from c0(2) r(3) have "conn_grows ctx (whub w) c' (whub w')" by (rule conn_grows_trans)
  moreover from r(4) have "\<not> inTx c'" by (simp add: same_tx_def c0_def)
  ultimately show ?thesis using True r(1,2) by (simp add: exec_cmd_def c0_def)
next
  case False
  with ok show ?thesis
    by (auto simp: exec_cmd_def Let_def session_ok_def sub_alloc_def conn_grows_def)
qed

lemma queueCommand_ok:
  assumes "session_ok rt w ctx" "inTx ctx" "ToUpper rt u = u" "u \<notin> set commandsBypassingQueue"
    and "validate env u args = validate rt u args" "queueCommand env u args ctx = (v, ctx')"
  shows "session_ok rt w ctx' \<and> conn_grows ctx (whub w) ctx' (whub w)"
  using assms
  by (auto simp: queueCommand_def session_ok_def sub_alloc_def conn_grows_def queued_ok_def
      split: sum.splits)

text \<open>The four ways a request can go.\<close>

lemma Dispatch_cases:
  assumes rt: "same_runtime rt es" and u: "u = ToUpper rt name"
  obtains
    (plain) "u \<notin> set commandsBypassingQueue" "\<not> inTx ctx"
  | (queued) "u \<notin> set commandsBypassingQueue" "inTx ctx"
      "Dispatch (Suc d) es w ctx name args =
         Some (fst (queueCommand (es 0) u args ctx), w, snd (queueCommand (es 0) u args ctx))"
  | (err) v where "u \<in> set commandsBypassingQueue" "validate rt u args = Inl v"
      "Dispatch (Suc d) es w ctx name args = Some (v, w, ctx)"
  | (tx) sp where "u \<in> set commandsBypassingQueue" "validate rt u args = Inr sp"
      "Dispatch (Suc d) es w ctx name args =
         map_option (\<lambda>(v, w', c'). (v, log_write sp v u args c' w', c'))
           (run_handler (Dispatch d) es (SHandler sp) w ctx args)"
proof -
  note eqs = Dispatch.simps same_runtimeD [OF rt] u [symmetric]
  have "u \<in> set commandsBypassingQueue \<Longrightarrow> validate rt u args = Inr sp \<Longrightarrow>
      Dispatch (Suc d) es w ctx name args =
         map_option (\<lambda>(v, w', c'). (v, log_write sp v u args c' w', c'))
           (run_handler (Dispatch d) es (SHandler sp) w ctx args)" for sp
    by (simp add: eqs split: option.split)
  then show ?thesis
    using plain queued err tx
    by (cases "validate rt u args"; cases "u \<in> set commandsBypassingQueue"; cases "inTx ctx")
      (auto simp: eqs case_prod_beta Let_def)
qed

text \<open>A transaction command.\<close>

lemma run_tx_ok:
  assumes rt: "same_runtime rt es" and ok: "session_ok rt w ctx"
    and sp: "fmlookup NewRegistry u = Some sp" "CheckArity sp (length args)"
  shows "\<exists>v w' ctx'. run_handler (Dispatch (Suc d)) es (SHandler sp) w ctx args = Some (v, w', ctx') \<and>
     session_ok rt w' ctx' \<and> conn_grows ctx (whub w) ctx' (whub w') \<and>
     (vType v = TypeError \<longrightarrow> wstore w' = wstore w \<and> waof w' = waof w)"
proof (cases "SHandler sp = ExecHandler")
  case True
  with exec_cmd_ok [OF rt ok, of d] show ?thesis by (auto simp: run_handler_def)
next
  case False
  obtain v w' ctx' where r: "run_handler (Dispatch (Suc d)) es (SHandler sp) w ctx args = Some (v, w', ctx')"
      "wf_store (wstore w')" "wf_hub (whub w')" "sub_alloc ctx' (whub w')"
      "conn_grows ctx (whub w) ctx' (whub w')" "same_tx ctx ctx' \<or> queue ctx' = []"
      "vType v = TypeError \<or> \<not> SWrite sp \<longrightarrow> wstore w' = wstore w"
    using registry.run_store_or_conn [OF sp False] ok unfolding session_ok_def by blast
  moreover from r(1) False have "waof w' = waof w"
    by (auto simp: run_handler_def split: Handler.splits)
  ultimately show ?thesis using ok by (auto simp: session_ok_def same_tx_def)
qed

lemma Dispatch_ok:
  assumes rt: "same_runtime rt es" and up: "upper_idem rt" and ok: "session_ok rt w ctx"
  shows "\<exists>v w' ctx'. Dispatch (Suc (Suc d)) es w ctx name args = Some (v, w', ctx') \<and>
     session_ok rt w' ctx' \<and> conn_grows ctx (whub w) ctx' (whub w') \<and>
     (vType v = TypeError \<longrightarrow> wstore w' = wstore w \<and> waof w' = waof w)"
proof -
  define u where "u = ToUpper rt name"
  have u: "ToUpper rt u = u" using up by (simp add: u_def upper_idem_def)
  from rt u_def show ?thesis
  proof (cases rule: Dispatch_cases [where ctx = ctx and d = "Suc d" and w = w and args = args])
    case plain
    then show ?thesis using Dispatch_plain [OF rt ok _ u_def [symmetric] u, of "Suc d" args] by blast
  next
    case queued
    have "validate (es 0) u args = validate rt u args" by (simp add: same_runtimeD [OF rt])
    from queueCommand_ok [OF ok queued(2) u queued(1) this prod.collapse [symmetric]] queued(3)
    show ?thesis by simp
  next
    case (err v)
    with ok show ?thesis by simp
  next
    case (tx sp)
    then have "fmlookup NewRegistry u = Some sp" "CheckArity sp (length args)"
      by (simp_all add: validate_Inr u)
    from run_tx_ok [OF rt ok this, of d]
    obtain v w' ctx' where r: "run_handler (Dispatch (Suc d)) es (SHandler sp) w ctx args = Some (v, w', ctx')"
        "session_ok rt w' ctx'" "conn_grows ctx (whub w) ctx' (whub w')"
        "vType v = TypeError \<longrightarrow> wstore w' = wstore w \<and> waof w' = waof w" by blast
    then have "session_ok rt (log_write sp v u args ctx' w') ctx'"
        "vType v = TypeError \<longrightarrow> waof (log_write sp v u args ctx' w') = waof w"
      by (simp_all add: session_ok_def log_write_def)
    with r tx(3) show ?thesis by simp
  qed
qed

end
