(* ===== verification/Durability.thy ===== *)
theory Durability
  imports Dispatcher
begin

section \<open>Commands that replay to the same store\<close>

text \<open>
  The append-only file holds the commands and not their effects, so the server relies on
  every logged command doing at replay what it did live, although the clock has moved on
  and maps are ranged over in another order. The lemmas here show when it does: on a
  store without expiry times, and for a command that sets none, the new store depends on
  neither.
\<close>

subsection \<open>Operations\<close>

lemma no_ttl_MSet [ttl_intros]: "no_ttl s \<Longrightarrow> no_ttl (MSet is ps s)"
  by (auto simp: MSet_order no_ttl_def IsZero_def fmpred_iff split: if_splits)

lemma no_ttl_Set: "no_ttl s \<Longrightarrow> \<not> HasTTL opts \<Longrightarrow> no_ttl (snd (Set c k v opts s))"
  by (auto simp: Set_def Let_def intro!: ttl_intros)

lemma stringOrWrongType_no_ttl:
  "no_ttl s \<Longrightarrow> stringOrWrongType t s k = Inr (Some e) \<Longrightarrow> expireAt e = 0"
  by (auto simp: getLocked_no_ttl dest!: stringOrWrongType_SomeD dest: no_ttlD)

lemma no_ttl_strings [ttl_intros]:
  "no_ttl s \<Longrightarrow> no_ttl (snd (GetSet c k v s))"
  "no_ttl s \<Longrightarrow> no_ttl (snd (IncrBy c k d s))"
  "no_ttl s \<Longrightarrow> no_ttl (snd (Append c k v s))"
  by (auto simp: GetSet_def IncrBy_def Append_def Let_def intro!: ttl_intros
      dest: stringOrWrongType_no_ttl split: sum.splits option.splits)

lemma string_clock:
  assumes "no_ttl s"
  shows "\<not> HasTTL opts \<Longrightarrow> Set c k v opts s = Set c' k v opts s"
    "GetSet c k v s = GetSet c' k v s" "IncrBy c k d s = IncrBy c' k d s"
    "Append c k v s = Append c' k v s"
  using assms
  by (simp_all add: Set_def GetSet_def IncrBy_def Append_def stringOrWrongType_def getLocked_no_ttl Let_def)

lemma generic_clock:
  assumes "no_ttl s"
  shows "Persist c k s = Persist c' k s" "Rename c k k' s = Rename c' k k' s"
  using assms by (simp_all add: Persist_def Rename_def getLocked_no_ttl)

lemma container_clock:
  assumes "no_ttl s"
  shows "HSet c is k fs s = HSet c' is' k fs s" "HDel c k xs s = HDel c' k xs s"
    "HIncrBy c k f d s = HIncrBy c' k f d s"
    "LPush c k xs s = LPush c' k xs s" "RPush c k xs s = RPush c' k xs s"
    "LPop c k s = LPop c' k s" "RPop c k s = RPop c' k s"
    "SAdd c k xs s = SAdd c' k xs s" "SRem c k xs s = SRem c' k xs s"
    "ZAdd c is k ms s = ZAdd c' is' k ms s" "ZRem c k xs s = ZRem c' k xs s"
  unfolding HSet_eq HDel_eq HIncrBy_def LPush_def RPush_def LPop_def RPop_def SAdd_eq SRem_eq ZAdd_eq ZRem_eq
    hash.acc_clock [OF assms, of "c 0" _ _ "c' 0"] list.acc_clock [OF assms, of "c 0" _ _ "c' 0"]
    members.acc_clock [OF assms, of "c 0" _ _ "c' 0"] zset.acc_clock [OF assms, of "c 0" _ _ "c' 0"]
  by (rule refl)+

lemma list_acc_no_ttl:
  "no_ttl s \<Longrightarrow> listOrWrongType t s k b = (Inr (Some e), s') \<Longrightarrow> expireAt e = 0 \<and> no_ttl s'"
  using list.no_ttl_acc [of s t k b "Inr (Some e)" s'] list.acc_lookup [of t s k b e s']
  by (metis no_ttlD option.inject)

lemma no_ttl_list [ttl_intros]:
  "no_ttl s \<Longrightarrow> no_ttl (snd (LPop c k s))"
  "no_ttl s \<Longrightarrow> no_ttl (snd (RPop c k s))"
  by (auto simp: LPop_def RPop_def Let_def intro!: ttl_intros dest: list_acc_no_ttl list.acc_readD
      split: prod.splits sum.splits option.splits list.splits)

lemma no_ttl_set_scores: "no_ttl s \<Longrightarrow> no_ttl (set_scores k m s)"
  using zset.no_ttl_wr [of s k "\<lparr>scores = m\<rparr>"] by simp

lemma no_ttl_remove [ttl_intros]:
  "no_ttl s \<Longrightarrow> no_ttl (snd (HDel c k xs s))"
  "no_ttl s \<Longrightarrow> no_ttl (snd (SRem c k xs s))"
  "no_ttl s \<Longrightarrow> no_ttl (snd (ZRem c k xs s))"
  by (auto simp: HDel_eq SRem_eq ZRem_eq Let_def intro!: ttl_intros hash.no_ttl_wr members.no_ttl_wr
      no_ttl_set_scores dest: hash.no_ttl_acc members.no_ttl_acc zset.no_ttl_acc
      split: prod.splits sum.splits option.splits)

lemma no_ttl_push:
  assumes "no_ttl s"
  shows "HSet c is k fs s = Some (r1, s1) \<Longrightarrow> no_ttl s1" "HIncrBy c k f d s = Some (r2, s2) \<Longrightarrow> no_ttl s2"
    "LPush c k xs s = Some (r3, s3) \<Longrightarrow> no_ttl s3" "RPush c k xs s = Some (r3, s3) \<Longrightarrow> no_ttl s3"
    "SAdd c k xs s = Some (r3, s3) \<Longrightarrow> no_ttl s3" "ZAdd c is k ms s = Some (r3, s3) \<Longrightarrow> no_ttl s3"
  using assms
  by (auto simp: HSet_eq HIncrBy_def LPush_def RPush_def SAdd_eq ZAdd_eq Let_def
      intro!: ttl_intros hash.no_ttl_wr members.no_ttl_wr no_ttl_set_scores
      dest: hash.no_ttl_acc members.no_ttl_acc zset.no_ttl_acc list_acc_no_ttl list.no_ttl_acc
      split: prod.splits sum.splits option.splits if_splits)

subsection \<open>Handlers\<close>

definition replays :: "(Runtime \<Rightarrow> Value list \<Rightarrow> bool) \<Rightarrow> store_handler \<Rightarrow> bool" where
  "replays P f \<longleftrightarrow>
     (\<forall>env env' s args. Runtime.truncate env = Runtime.truncate env' \<longrightarrow> P (Runtime.truncate env) args \<longrightarrow>
        no_ttl s \<longrightarrow>
          f env s args = f env' s args \<and> (\<forall>v s'. f env s args = Some (v, s') \<longrightarrow> no_ttl s'))"

lemma replaysI:
  assumes "\<And>env env' s args. Runtime.truncate env = Runtime.truncate env' \<Longrightarrow>
      P (Runtime.truncate env) args \<Longrightarrow> no_ttl s \<Longrightarrow> f env s args = f env' s args"
    and "\<And>env s args v s'. P (Runtime.truncate env) args \<Longrightarrow> no_ttl s \<Longrightarrow> f env s args = Some (v, s') \<Longrightarrow> no_ttl s'"
  shows "replays P f"
  using assms unfolding replays_def by blast

abbreviation any_args :: "Runtime \<Rightarrow> Value list \<Rightarrow> bool" where
  "any_args \<equiv> \<lambda>_ _. True"

definition set_without_ttl :: "Runtime \<Rightarrow> Value list \<Rightarrow> bool" where
  "set_without_ttl rt args \<longleftrightarrow>
     (case set_options rt (argStrings (drop 2 args)) no_options of
        Inl _ \<Rightarrow> True | Inr opts \<Rightarrow> \<not> HasTTL opts)"

lemma runtime_eq:
  assumes "Runtime.truncate e = Runtime.truncate e'"
  shows "parseFloat e = parseFloat e'" "ToUpper e = ToUpper e'"
  using assms by (metis Runtime.select_convs(1) Runtime.truncate_def, metis truncate_runtime(1))

lemma set_options_truncate [simp]: "set_options (Runtime.truncate e) xs opts = set_options e xs opts"
proof (induction e xs opts rule: set_options.induct)
  case (2 rt a rest opts)
  then show ?case by (auto simp: Let_def split: list.split option.split)
qed simp

lemma collect_scores_eq: "parseFloat e = parseFloat e' \<Longrightarrow> collect_scores e xs m = collect_scores e' xs m"
proof (induction e xs m rule: collect_scores.induct)
  case (2 rt x rest m)
  then show ?case by (simp split: list.split option.split)
qed simp

lemma no_ttl_finish: "finish f r = (v, s') \<Longrightarrow> no_ttl (snd r) \<Longrightarrow> no_ttl s'"
  by (simp add: finish_def)

lemma rename_cmd_eq:
  "rename_cmd env st args = do {
     src \<leftarrow> arg 0 args; dst \<leftarrow> arg 1 args;
     Some (case fst (Rename (clk env) src dst st) of None \<Rightarrow> OK | Some e \<Rightarrow> err_reply e,
           snd (Rename (clk env) src dst st)) }"
  by (cases "arg 0 args"; cases "arg 1 args") (auto simp: rename_cmd_def split: prod.split option.split)

lemma replays_generic:
  "replays any_args del_cmd" "replays any_args persist_cmd" "replays any_args rename_cmd"
  "replays any_args flushall_cmd"
proof -
  show "replays any_args del_cmd"
    by (rule replaysI)
      (auto simp: del_cmd_def Del_clock [of _ "clk _" _ "\<lambda>_. 0"] case_prod_beta Let_def ttl_intros)
  show "replays any_args persist_cmd"
    by (rule replaysI)
      (auto simp: persist_cmd_def generic_clock(1) [of _ "clk _" _ "\<lambda>_. 0"] case_prod_beta Let_def
        bind_eq_Some_conv ttl_intros)
  show "replays any_args flushall_cmd"
    by (rule replaysI) (auto simp: flushall_cmd_def ttl_intros)
  show "replays any_args rename_cmd"
    by (rule replaysI)
      (auto simp: rename_cmd_eq generic_clock(2) [of _ "clk _" _ _ "\<lambda>_. 0"] bind_eq_Some_conv ttl_intros)
qed

lemma replays_set: "replays set_without_ttl set_cmd"
proof (rule replaysI)
  fix env env' :: Env and s :: Store and args :: "Value list"
  assume e: "Runtime.truncate env = Runtime.truncate env'" and o: "set_without_ttl (Runtime.truncate env) args"
    and s: "no_ttl s"
  have "set_options env xs = set_options env' xs" for xs
    using e by (metis ext set_options_truncate)
  moreover have "set_options env (argStrings (drop 2 args)) no_options = Inr opts \<Longrightarrow>
      Set (clk env) k v opts s = Set (clk env') k v opts s" for k v opts
    using o s string_clock(1) [of s opts "clk env"] by (simp add: set_without_ttl_def)
  ultimately show "set_cmd env s args = set_cmd env' s args"
    by (cases "set_options env' (argStrings (drop 2 args)) no_options") (simp_all add: set_cmd_def)
next
  fix env :: Env and s s' :: Store and args :: "Value list" and v
  assume o: "set_without_ttl (Runtime.truncate env) args" and s: "no_ttl s"
    and r: "set_cmd env s args = Some (v, s')"
  from r o s show "no_ttl s'"
    by (cases "set_options env (argStrings (drop 2 args)) no_options")
      (auto simp: set_cmd_def set_without_ttl_def bind_eq_Some_conv no_ttl_Set dest!: no_ttl_finish)
qed

text \<open>The rules that fix the clock and the order of iteration.\<close>

lemmas clock_rules =
  string_clock(1) [of _ _ "clk _" _ _ "\<lambda>_. 0"] string_clock(2-4) [of _ "clk _" _ _ "\<lambda>_. 0"]
  container_clock(1) [of _ "clk _" "iter _" _ _ "\<lambda>_. 0" "[]"]
  container_clock(2,4,5,8,9,11) [of _ "clk _" _ _ "\<lambda>_. 0"]
  container_clock(3) [of _ "clk _" _ _ _ "\<lambda>_. 0"]
  container_clock(6,7) [of _ "clk _" _ "\<lambda>_. 0"]
  container_clock(10) [of _ "clk _" "iter _" _ _ "\<lambda>_. 0" "[]"]

lemma replays_strings:
  "replays any_args getSet_cmd" "replays any_args setNX_cmd" "replays any_args mset_cmd"
  "replays any_args incr_cmd" "replays any_args decr_cmd" "replays any_args append_cmd"
  by (rule replaysI;
      auto simp: getSet_cmd_def setNX_cmd_def mset_cmd_def incr_cmd_def decr_cmd_def append_cmd_def
        incrByAmount_def clock_rules no_options_def MSet_order [of "iter _"] bind_eq_Some_conv
        ttl_intros [unfolded MSet_order] no_ttl_Set split: if_splits dest!: no_ttl_finish)+

lemma replays_parse:
  "replays any_args incrBy_cmd" "replays any_args decrBy_cmd"
  by (rule replaysI;
      auto simp: incrBy_cmd_def decrBy_cmd_def incrByAmount_def clock_rules bind_eq_Some_conv ttl_intros
        cong: option.case_cong split: option.splits dest!: no_ttl_finish)+

lemma replays_remove:
  "replays any_args hdel_cmd" "replays any_args lpop_cmd" "replays any_args rpop_cmd"
  "replays any_args srem_cmd" "replays any_args zrem_cmd"
  by (rule replaysI;
      auto simp: hdel_cmd_def lpop_cmd_def rpop_cmd_def srem_cmd_def zrem_cmd_def clock_rules
        bind_eq_Some_conv ttl_intros dest!: no_ttl_finish)+

lemma finish_Pair: "finish f (r, s) = (v, s') \<Longrightarrow> s' = s"
  by (simp add: finish_def)

lemma replays_push:
  "replays any_args lpush_cmd" "replays any_args rpush_cmd" "replays any_args sadd_cmd"
  by (rule replaysI;
      auto simp: lpush_cmd_def rpush_cmd_def sadd_cmd_def clock_rules bind_eq_Some_conv
        dest!: finish_Pair dest: no_ttl_push)+

lemma replays_hset: "replays any_args hset_cmd"
  by (rule replaysI)
    (auto simp: hset_cmd_def clock_rules bind_eq_Some_conv split: if_splits
      dest!: finish_Pair dest: no_ttl_push)

lemma replays_hincrby: "replays any_args hincrby_cmd"
  by (rule replaysI)
    (auto simp: hincrby_cmd_def clock_rules bind_eq_Some_conv cong: option.case_cong split: option.splits
      dest!: finish_Pair dest: no_ttl_push)

lemma replays_zadd: "replays any_args zadd_cmd"
proof (rule replaysI)
  fix env env' :: Env and s :: Store and args :: "Value list"
  assume e: "Runtime.truncate env = Runtime.truncate env'" and s: "no_ttl s"
  show "zadd_cmd env s args = zadd_cmd env' s args"
    unfolding zadd_cmd_def collect_scores_eq [OF runtime_eq(1) [OF e]]
      container_clock(10) [OF s, of "clk env" "iter env" _ _ "clk env'" "iter env'"]
    by (rule refl)
next
  fix env :: Env and s s' :: Store and args :: "Value list" and v
  assume s: "no_ttl s" and r: "zadd_cmd env s args = Some (v, s')"
  show "no_ttl s'"
  proof (cases "collect_scores env (drop 1 args) fmempty")
    case (Some c)
    with r s show ?thesis
      by (cases c) (auto simp: zadd_cmd_def bind_eq_Some_conv split: if_splits
          dest!: finish_Pair dest: no_ttl_push)
  qed (use r s in \<open>simp add: zadd_cmd_def split: if_splits\<close>)
qed

lemmas replays_all = replays_generic replays_set replays_strings replays_parse replays_remove replays_push
  replays_hset replays_hincrby replays_zadd

end
