(* ===== verification/Transactions.thy ===== *)
theory Transactions
  imports Dispatcher
begin

section \<open>Transactions\<close>

text \<open>
  What \<open>MULTI\<close>, queueing and \<open>EXEC\<close> come to: the recursion of the dispatcher is two levels
  deep, and a transaction that runs alone gives the replies and the state that its
  commands give when they are sent one by one.
\<close>

subsection \<open>The recursion of \<open>Dispatch\<close> and \<open>exec\<close>\<close>

lemma Dispatch_plain_eq:
  assumes rt: "same_runtime rt es" and tx: "\<not> inTx ctx"
    and up: "ToUpper rt name = u" "ToUpper rt u = u" "u \<notin> set commandsBypassingQueue"
  shows "Dispatch (Suc d) es w ctx name args = Dispatch (Suc d') (\<lambda>_. es 0) w ctx u args"
proof (cases "validate rt u args")
  case (Inl e)
  with tx up show ?thesis by (simp add: Dispatch.simps same_runtimeD [OF rt])
next
  case (Inr sp)
  then have "SHandler sp \<noteq> ExecHandler"
    using registry.table_not_exec [of u sp] up(2,3) by (simp add: validate_Inr)
  with Inr tx up show ?thesis
    by (simp add: Dispatch.simps same_runtimeD [OF rt] run_handler_def split: Handler.split)
qed

lemma exec_queue_depth:
  assumes rt: "same_runtime rt es"
  shows "list_all (queued_ok rt) q \<Longrightarrow> session_ok rt w ctx \<Longrightarrow> \<not> inTx ctx \<Longrightarrow>
    exec_queue (Dispatch (Suc d)) es i q w ctx = exec_queue (Dispatch (Suc d')) es i q w ctx"
proof (induction q arbitrary: i w ctx)
  case (Cons qc q)
  have qc: "ToUpper rt (qName qc) = qName qc" "qName qc \<notin> set commandsBypassingQueue"
    using Cons.prems(1) by (simp_all add: queued_ok_def)
  note si = same_runtimeD(3) [OF rt, of i]
  obtain v w1 c1 where 1: "Dispatch (Suc d) (\<lambda>_. es i) w ctx (qName qc) (qArgs qc) = Some (v, w1, c1)"
      "session_ok rt w1 c1" "same_tx ctx c1"
    using Dispatch_plain [OF si Cons.prems(2,3) qc(1,1,2)] by blast
  moreover have "Dispatch (Suc d') (\<lambda>_. es i) w ctx (qName qc) (qArgs qc) =
      Dispatch (Suc d) (\<lambda>_. es i) w ctx (qName qc) (qArgs qc)"
    using Dispatch_plain_eq [OF si Cons.prems(3) qc(1,1,2)] by simp
  ultimately show ?case
    using Cons.IH [of w1 c1 "Suc i"] Cons.prems(1,3) by (simp add: same_tx_def)
qed simp

lemma run_handler_depth:
  assumes rt: "same_runtime rt es" and ok: "session_ok rt w ctx"
  shows "run_handler (Dispatch (Suc d)) es f w ctx args = run_handler (Dispatch (Suc d')) es f w ctx args"
proof -
  define c0 where "c0 = ctx\<lparr>inTx := False, queue := [], txError := False\<rparr>"
  have "session_ok rt w c0" "\<not> inTx c0" "list_all (queued_ok rt) (queue ctx)"
    using ok by (simp_all add: c0_def session_ok_def sub_alloc_def)
  then have "exec_queue (Dispatch (Suc d)) es 1 (queue ctx) w c0 = exec_queue (Dispatch (Suc d')) es 1 (queue ctx) w c0"
    using exec_queue_depth [OF rt, of "queue ctx" w c0 d 1 d'] by simp
  then show ?thesis
    by (auto simp: run_handler_def exec_cmd_def c0_def Let_def split: Handler.split)
qed

lemma Dispatch_depth:
  assumes rt: "same_runtime rt es" and ok: "session_ok rt w ctx"
  shows "Dispatch (Suc (Suc d)) es w ctx name args = Dispatch 2 es w ctx name args"
proof -
  have "run_handler (Dispatch (Suc d)) es f w ctx args = run_handler (Dispatch (Suc 0)) es f w ctx args" for f
    by (rule run_handler_depth [OF rt ok])
  then show ?thesis
    by (simp only: Dispatch.simps numeral_2_eq_2 cong: sum.case_cong)
qed

subsection \<open>A transaction and its commands one by one\<close>

type_synonym request = "string \<times> Value list"

text \<open>Requests of one connection, dispatched one after the other.\<close>

fun dispatch_seq ::
    "(nat \<Rightarrow> nat \<Rightarrow> Env) \<Rightarrow> nat \<Rightarrow> request list \<Rightarrow> World \<Rightarrow> Context
     \<Rightarrow> (Value list \<times> World \<times> Context) option" where
  "dispatch_seq es i [] w ctx = Some ([], w, ctx)"
| "dispatch_seq es i ((name, args) # rs) w ctx =
     (case Dispatch 2 (es i) w ctx name args of
        None \<Rightarrow> None
      | Some (v, w1, ctx1) \<Rightarrow>
          (case dispatch_seq es (Suc i) rs w1 ctx1 of
             None \<Rightarrow> None
           | Some (vs, w2, ctx2) \<Rightarrow> Some (v # vs, w2, ctx2)))"

definition valid_cmd :: "Runtime \<Rightarrow> request \<Rightarrow> bool" where
  "valid_cmd rt r \<longleftrightarrow> ToUpper rt (fst r) \<notin> set commandsBypassingQueue \<and>
     (case validate rt (ToUpper rt (fst r)) (snd r) of Inl _ \<Rightarrow> False | Inr _ \<Rightarrow> True)"

definition as_queued :: "Runtime \<Rightarrow> request \<Rightarrow> QueuedCommand" where
  "as_queued rt r = \<lparr>qName = ToUpper rt (fst r), qArgs = snd r\<rparr>"

lemma dispatch_seq_append:
  "dispatch_seq es i (rs @ rs') w ctx =
     (case dispatch_seq es i rs w ctx of
        None \<Rightarrow> None
      | Some (vs, w1, c1) \<Rightarrow>
          (case dispatch_seq es (i + length rs) rs' w1 c1 of
             None \<Rightarrow> None | Some (vs', w2, c2) \<Rightarrow> Some (vs @ vs', w2, c2)))"
proof (induction rs arbitrary: i w ctx)
  case (Cons r rs)
  obtain name args where r: "r = (name, args)" by fastforce
  show ?case
    by (cases "Dispatch 2 (es i) w ctx name args") (auto simp: r Cons.IH split: option.split prod.split)
qed (simp split: option.split)

lemma queue_phase:
  assumes rt: "\<And>i. same_runtime rt (es i)"
  shows "list_all (valid_cmd rt) cmds \<Longrightarrow> inTx ctx \<Longrightarrow>
    dispatch_seq es i cmds w ctx =
      Some (replicate (length cmds) (Str ''QUEUED''), w, ctx\<lparr>queue := queue ctx @ map (as_queued rt) cmds\<rparr>)"
proof (induction cmds arbitrary: i ctx)
  case (Cons r cmds)
  obtain name args where r: "r = (name, args)" by fastforce
  have "Dispatch 2 (es i) w ctx name args =
      Some (Str ''QUEUED'', w, ctx\<lparr>queue := queue ctx @ [as_queued rt r]\<rparr>)"
    using Cons.prems
    by (auto simp: r valid_cmd_def as_queued_def numeral_2_eq_2 Dispatch.simps same_runtimeD [OF rt]
        queueCommand_def split: sum.splits)
  with Cons.IH [of "ctx\<lparr>queue := queue ctx @ [as_queued rt r]\<rparr>" "Suc i"] Cons.prems r show ?case by simp
qed simp

lemma exec_queue_seq:
  assumes rt: "same_runtime rt ex" and up: "upper_idem rt"
  shows "list_all (valid_cmd rt) cmds \<Longrightarrow> session_ok rt w ctx \<Longrightarrow> \<not> inTx ctx \<Longrightarrow>
    exec_queue (Dispatch (Suc d)) ex (Suc i) (map (as_queued rt) cmds) w ctx =
      dispatch_seq (\<lambda>i _. ex (Suc i)) i cmds w ctx"
proof (induction cmds arbitrary: i w ctx)
  case (Cons r cmds)
  obtain name args where r: "r = (name, args)" by fastforce
  define u where "u = ToUpper rt name"
  have u: "ToUpper rt u = u" "u \<notin> set commandsBypassingQueue"
    using Cons.prems(1) up by (simp_all add: u_def r valid_cmd_def upper_idem_def)
  note si = same_runtimeD(3) [OF rt, of "Suc i"]
  obtain v w1 c1 where 1: "Dispatch (Suc d) (\<lambda>_. ex (Suc i)) w ctx u args = Some (v, w1, c1)"
      "session_ok rt w1 c1" "same_tx ctx c1"
    using Dispatch_plain [OF si Cons.prems(2,3) u(1,1,2)] by blast
  moreover have "Dispatch 2 (\<lambda>_. ex (Suc i)) w ctx name args = Dispatch (Suc d) (\<lambda>_. ex (Suc i)) w ctx u args"
    using Dispatch_plain_eq [OF si Cons.prems(3) u_def [symmetric] u, of "Suc 0"] by (simp add: numeral_2_eq_2)
  ultimately show ?case
    using Cons.IH [of w1 c1 "Suc i"] Cons.prems(1,3)
    by (simp add: r as_queued_def same_tx_def flip: u_def)
qed simp

lemma as_queued_ok:
  "upper_idem rt \<Longrightarrow> list_all (valid_cmd rt) cmds \<Longrightarrow> list_all (queued_ok rt) (map (as_queued rt) cmds)"
  by (auto simp: list_all_iff valid_cmd_def as_queued_def queued_ok_def upper_idem_def)

subsection \<open>Commands of the subscriber mode\<close>

lemma Dispatch_not_write:
  assumes rt: "same_runtime rt es" and ok: "session_ok rt w ctx"
    and u: "ToUpper rt u = u" "u \<notin> set commandsBypassingQueue"
    and nw: "\<And>sp. fmlookup NewRegistry u = Some sp \<Longrightarrow> \<not> SWrite sp"
  shows "\<exists>v w' ctx'. Dispatch (Suc d) es w ctx u args = Some (v, w', ctx') \<and>
    wstore w' = wstore w \<and> waof w' = waof w"
proof (cases "inTx ctx")
  case True
  with u show ?thesis by (simp add: Dispatch.simps same_runtimeD [OF rt] case_prod_beta)
next
  case False
  show ?thesis
  proof (cases "validate rt u args")
    case (Inl e)
    with False u show ?thesis by (simp add: Dispatch.simps same_runtimeD [OF rt])
  next
    case (Inr sp)
    then have sp: "fmlookup NewRegistry u = Some sp" "CheckArity sp (length args)"
      using u(1) by (simp_all add: validate_Inr)
    note ne = registry.table_not_exec [OF sp(1) u(2)]
    obtain v w' ctx' where r: "run_handler (Dispatch d) es (SHandler sp) w ctx args = Some (v, w', ctx')"
        "wstore w' = wstore w"
      using registry.run_store_or_conn [OF sp ne] nw [OF sp(1)] ok unfolding session_ok_def by blast
    moreover have "waof w' = waof w" using r(1) ne by (auto simp: run_handler_def split: Handler.splits)
    ultimately show ?thesis
      using Inr False u nw [OF sp(1)] by (simp add: Dispatch.simps same_runtimeD [OF rt] log_write_def)
  qed
qed

end
