(* ===== verification/Recovery.thy ===== *)
theory Recovery
  imports Server Durability Transactions
begin

section \<open>Sessions and recovery\<close>

text \<open>
  A whole connection keeps the invariants of the store and the hub and answers every
  request; and, with persistence on, replaying the log rebuilds the store, as long as no
  command sets an expiry time (\<open>sets_ttl\<close>).
\<close>

subsection \<open>Connections\<close>

lemma session_ok_grows: "session_ok rt w ctx \<Longrightarrow> wf_store (wstore w) \<and> wf_hub (whub w)"
  by (simp add: session_ok_def)

lemma conn_open_ok:
  assumes "wf_store (wstore w)" "wf_hub (whub w)" "conn_open aof w = (w', ctx)"
  shows "session_ok rt w' ctx" "wstore w' = wstore w" "waof w' = waof w" "OnWrite ctx = aof"
    "\<not> inTx ctx" "sub ctx \<noteq> None" "queue ctx = []"
proof -
  define c0 where "c0 = NewContext\<lparr>OnWrite := aof\<rparr>"
  obtain i c h where s: "ctx_Subscriber c0 (whub w) = (i, c, h)" by (metis prod_cases3)
  have a: "sub_alloc c0 (whub w)" by (simp add: c0_def NewContext_def sub_alloc_def)
  note c = ctx_Subscriber_ok [OF assms(2) a s]
  have eq: "w' = w\<lparr>whub := h\<rparr>" "ctx = c" using assms(3) s by (simp_all add: conn_open_def c0_def)
  have tx: "inTx c0 = False" "queue c0 = []" "OnWrite c0 = aof" by (simp_all add: c0_def NewContext_def)
  show "session_ok rt w' ctx"
    using c assms(1) tx by (simp add: eq session_ok_def sub_alloc_def same_tx_def)
  show "wstore w' = wstore w" "waof w' = waof w" "OnWrite ctx = aof" "\<not> inTx ctx" "sub ctx \<noteq> None" "queue ctx = []"
    using c tx by (simp_all add: eq same_tx_def conn_grows_def)
qed

lemma conn_open_fresh:
  assumes "wf_hub (whub w)" "conn_open aof w = (w', ctx)"
  shows "\<exists>i. sub ctx = Some i \<and> i |\<notin>| fmdom (subscribers (whub w)) \<and> whub w' = snd (NewSubscriber (whub w))"
proof -
  have "Suc (nextID (whub w)) |\<notin>| fmdom (subscribers (whub w))" using assms(1) by (auto simp: wf_hub_def)
  moreover have "sub ctx = Some (Suc (nextID (whub w)))" "whub w' = snd (NewSubscriber (whub w))"
    using assms(2) by (auto simp: conn_open_def ctx_Subscriber_def NewContext_def NewSubscriber_def Let_def)
  ultimately show ?thesis by blast
qed

lemma handle_request_ok:
  assumes rt: "same_runtime rt es" and up: "upper_idem rt" and ok: "session_ok rt w ctx"
  shows "\<exists>v b w' ctx'. handle_request es w ctx req = Some (v, b, w', ctx') \<and>
     session_ok rt w' ctx' \<and> conn_grows ctx (whub w) ctx' (whub w') \<and>
     (vType v = TypeError \<longrightarrow> wstore w' = wstore w \<and> waof w' = waof w)"
proof -
  obtain v w' ctx' where "Dispatch 2 es w ctx (ToUpper (es 0) (vStr (hd (vElems req)))) (tl (vElems req))
      = Some (v, w', ctx')" "session_ok rt w' ctx'" "conn_grows ctx (whub w) ctx' (whub w')"
      "vType v = TypeError \<longrightarrow> wstore w' = wstore w \<and> waof w' = waof w"
    using Dispatch_ok [OF rt up ok, of 0] by (metis numeral_2_eq_2)
  with ok show ?thesis by (auto simp: handle_request_def Let_def)
qed

text \<open>The requests of a client that sends well-formed frames, one after the other.\<close>

definition requests :: "Value list \<Rightarrow> string" where
  "requests reqs = concat (map Marshal reqs)"

text \<open>
  What the connection has to answer: the reply to each request, handled in the state that the
  requests before it have left, and the state after the last.
\<close>

fun answers ::
    "(nat \<Rightarrow> nat \<Rightarrow> Env) \<Rightarrow> nat \<Rightarrow> Value list \<Rightarrow> World \<Rightarrow> Context \<Rightarrow> (Value list \<times> World \<times> Context) option" where
  "answers es i [] w ctx = Some ([], w, ctx)"
| "answers es i (r # reqs) w ctx =
     (case handle_request (es i) w ctx r of
        None \<Rightarrow> None
      | Some (v, _, w', ctx') \<Rightarrow> map_option (\<lambda>(vs, x). (v # vs, x)) (answers es (Suc i) reqs w' ctx'))"

lemma serve_ok:
  assumes rt: "\<And>i. same_runtime rt (es i)" and up: "upper_idem rt"
  shows "list_all wire_ok reqs \<Longrightarrow> session_ok rt w ctx \<Longrightarrow>
    \<exists>vs w' ctx'. serve (\<lambda>_. True) es i (requests reqs) w ctx out = Some (out @ concat (map Write vs), w', ctx') \<and>
      answers es i reqs w ctx = Some (vs, w', ctx') \<and> session_ok rt w' ctx' \<and> conn_grows ctx (whub w) ctx' (whub w')"
proof (induction reqs arbitrary: i w ctx out)
  case Nil
  have "serve (\<lambda>_. True) es i [] w ctx out = Some (out, w, ctx)"
    by (subst serve.simps) (simp add: resp_codec.dec_empty)
  with Nil show ?case by (simp add: requests_def)
next
  case (Cons r reqs)
  have "wire_ok r" using Cons.prems(1) by simp
  then have read: "Read (requests (r # reqs)) = Inr (r, requests reqs)"
    by (simp add: requests_def resp_codec.dec_enc)
  obtain v b w1 c1 where h: "handle_request (es i) w ctx r = Some (v, b, w1, c1)" "session_ok rt w1 c1"
      "conn_grows ctx (whub w) c1 (whub w1)"
    using handle_request_ok [OF rt up Cons.prems(2)] by blast
  obtain vs w2 c2 where s: "serve (\<lambda>_. True) es (Suc i) (requests reqs) w1 c1 (out @ Write v) =
        Some ((out @ Write v) @ concat (map Write vs), w2, c2)" "answers es (Suc i) reqs w1 c1 = Some (vs, w2, c2)"
      "session_ok rt w2 c2" "conn_grows c1 (whub w1) c2 (whub w2)"
    using Cons.IH [OF _ h(2)] Cons.prems(1) by fastforce
  have "serve (\<lambda>_. True) es i (requests (r # reqs)) w ctx out = Some (out @ concat (map Write (v # vs)), w2, c2)"
    by (subst serve.simps) (simp add: read h(1) s(1))
  moreover have "answers es i (r # reqs) w ctx = Some (v # vs, w2, c2)" using h(1) s(2) by simp
  moreover have "conn_grows ctx (whub w) c2 (whub w2)" using h(3) s(4) by (rule conn_grows_trans)
  ultimately show ?case using s(3) by blast
qed

lemma serve_total:
  assumes rt: "\<And>i. same_runtime rt (es i)" and up: "upper_idem rt"
  shows "list_all wire_ok reqs \<Longrightarrow> session_ok rt w ctx \<Longrightarrow>
    \<exists>out' w' ctx'. serve wok es i (requests reqs) w ctx out = Some (out', w', ctx') \<and> session_ok rt w' ctx'"
proof (induction reqs arbitrary: i w ctx out)
  case Nil
  then show ?case by (subst serve.simps) (simp add: requests_def resp_codec.dec_empty)
next
  case (Cons r reqs)
  have "wire_ok r" using Cons.prems(1) by simp
  then have read: "Read (requests (r # reqs)) = Inr (r, requests reqs)"
    by (simp add: requests_def resp_codec.dec_enc)
  obtain v b w1 c1 where h: "handle_request (es i) w ctx r = Some (v, b, w1, c1)" "session_ok rt w1 c1"
    using handle_request_ok [OF rt up Cons.prems(2)] by blast
  have "\<exists>out' w' ctx'. serve wok es (Suc i) (requests reqs) w1 c1 o1 = Some (out', w', ctx') \<and> session_ok rt w' ctx'" for o1
    using Cons.IH [OF _ h(2)] Cons.prems(1) by simp
  then show ?case by (subst serve.simps) (simp add: read h)
qed

lemma wf_ctx_Close: "wf_hub h \<Longrightarrow> wf_hub (ctx_Close is ctx h)"
  by (simp add: ctx_Close_def wf_UnsubscribeAll split: option.split)

subsection \<open>What the log records\<close>

definition sets_ttl :: "Runtime \<Rightarrow> string \<Rightarrow> Value list \<Rightarrow> bool" where
  "sets_ttl rt name args \<longleftrightarrow>
     name \<in> {''EXPIRE'', ''PEXPIRE'', ''SETEX''} \<or> name = ''SET'' \<and> \<not> set_without_ttl rt args"

definition durable_cmd :: "Runtime \<Rightarrow> string \<Rightarrow> Value list \<Rightarrow> bool" where
  "durable_cmd rt name args \<longleftrightarrow>
     \<not> sets_ttl rt name args \<and> list_all wire_ok args \<and> sizeofValue * Suc (length args) \<le> maxAlloc"

definition spec_replays :: "Spec \<Rightarrow> bool" where
  "spec_replays sp \<longleftrightarrow> SWrite sp \<longrightarrow>
     (case SHandler sp of
        StoreHandler f \<Rightarrow> replays (\<lambda>rt args. \<not> sets_ttl rt (Name sp) args) f
      | ConnHandler f \<Rightarrow> f = publish_cmd
      | ExecHandler \<Rightarrow> False)"

lemma replays_ttl_command [simp]: "replays (\<lambda>_ _. False) f"
  by (simp add: replays_def)

lemma all_specs_replay: "list_all spec_replays all_specs"
  by (simp add: all_specs_def command_lists spec_replays_def replays_all sets_ttl_def)

lemma registry_tx_no_write:
  "fmlookup NewRegistry u = Some sp \<Longrightarrow> u \<in> set commandsBypassingQueue \<Longrightarrow> \<not> SWrite sp"
proof -
  have "list_all (\<lambda>s. Name s \<in> set commandsBypassingQueue \<longrightarrow> \<not> SWrite s) all_specs"
    by (simp add: all_specs_def command_lists commandsBypassingQueue_def)
  then show "fmlookup NewRegistry u = Some sp \<Longrightarrow> u \<in> set commandsBypassingQueue \<Longrightarrow> \<not> SWrite sp"
    using NewRegistry_lookup [of u sp] by (auto simp: list_all_iff)
qed

lemma registry_name_short: "fmlookup NewRegistry u = Some sp \<Longrightarrow> length u \<le> maxAlloc"
proof -
  have "list_all (\<lambda>s. length (Name s) \<le> maxAlloc) all_specs"
    by (simp add: all_specs_def command_lists maxAlloc_def)
  then show "fmlookup NewRegistry u = Some sp \<Longrightarrow> length u \<le> maxAlloc"
    using NewRegistry_lookup [of u sp] by (auto simp: list_all_iff)
qed

subsection \<open>Replaying the log rebuilds the store\<close>

definition restarted :: "Store \<Rightarrow> string \<Rightarrow> World" where
  "restarted s f = \<lparr>wstore = s, whub = NewHub, waof = f\<rparr>"

text \<open>
  Replaying the commands from an empty store, at whatever time and in whatever order maps
  are ranged over, gives the store \<open>s\<close>.
\<close>

definition replays_to :: "Runtime \<Rightarrow> Value list list \<Rightarrow> Store \<Rightarrow> bool" where
  "replays_to rt cs s \<longleftrightarrow> no_ttl s \<and> list_all (\<lambda>c. wire_ok (Array c)) cs \<and>
     (\<forall>es f. (\<forall>n. same_runtime rt (es n)) \<longrightarrow>
        run_all (replay_fn es) cs (restarted New f, NewContext, 0) =
          Some (ReplayDone, (restarted s f, NewContext, length cs)))"

text \<open>The log is the frames of such commands for the present store.\<close>

definition recoverable :: "Runtime \<Rightarrow> World \<Rightarrow> bool" where
  "recoverable rt w \<longleftrightarrow> (\<exists>cs. waof w = aof_file cs \<and> replays_to rt cs (wstore w))"

lemma recoverable_no_ttl: "recoverable rt w \<Longrightarrow> no_ttl (wstore w)"
  by (auto simp: recoverable_def replays_to_def)

lemma recoverable_cong:
  "wstore w' = wstore w \<Longrightarrow> waof w' = waof w \<Longrightarrow> recoverable rt w' = recoverable rt w"
  by (simp add: recoverable_def)

lemma Publish_NewHub: "Publish is ch p NewHub = (0, NewHub)"
proof -
  have "chan_subs NewHub ch = {||}" by (simp add: chan_subs_def NewHub_def)
  moreover have "range_fset is {||} = ([] :: nat list)"
    by (simp flip: set_empty)
  ultimately show ?thesis by (simp add: Publish_def)
qed

text \<open>A write command is dispatched on a server that has just started: its handler runs.\<close>

lemma Dispatch_restarted:
  assumes "fmlookup NewRegistry u = Some sp" "CheckArity sp (length args)" "ToUpper rt u = u" "same_runtime rt es"
  shows "Dispatch 2 es (restarted s f) NewContext u args =
    map_option (\<lambda>(r, w1, c1). (r, log_write sp r u args c1 w1, c1))
      (run_handler (Dispatch 1) es (SHandler sp) (restarted s f) NewContext args)"
  using assms(1-3)
  by (auto simp: Dispatch.simps numeral_2_eq_2 same_runtimeD [OF assms(4)] NewContext_def validate_def
      Lookup_def split: option.split)

text \<open>A command does to the store of a restarted server what its handler does, in the same environment.\<close>

lemma redo_one:
  assumes sp: "fmlookup NewRegistry u = Some sp" "CheckArity sp (length args)" "SWrite sp" "ToUpper rt u = u"
    and rt: "same_runtime rt es" "es' 0 = es 0"
    and run: "run_handler disp es' (SHandler sp) w ctx args = Some (v, w', ctx')"
  shows "\<exists>v'. Dispatch 2 es (restarted (wstore w) f) NewContext u args = Some (v', restarted (wstore w') f, NewContext)"
proof -
  have rep: "spec_replays sp" using NewRegistry_lookup [OF sp(1)] all_specs_replay by (auto simp: list_all_iff)
  show ?thesis
  proof (cases "SHandler sp")
    case (StoreHandler h)
    with run rt(2) show ?thesis
      unfolding Dispatch_restarted [OF sp(1,2,4) rt(1)]
      by (auto simp: run_handler_def restarted_def log_write_def NewContext_def)
  next
    case (ConnHandler h)
    then have "h = publish_cmd" using rep sp(3) by (simp add: spec_replays_def)
    with run ConnHandler show ?thesis
      unfolding Dispatch_restarted [OF sp(1,2,4) rt(1)]
      by (auto simp: run_handler_def publish_cmd_def restarted_def log_write_def NewContext_def
          Publish_NewHub bind_eq_Some_conv case_prod_beta Let_def)
  next
    case ExecHandler
    with rep sp(3) show ?thesis by (simp add: spec_replays_def)
  qed
qed

text \<open>A command that was executed and logged does the same when it is replayed.\<close>

lemma replay_one:
  assumes sp: "fmlookup NewRegistry u = Some sp" "CheckArity sp (length args)" "SWrite sp"
    and u: "ToUpper rt u = u" "u \<notin> set commandsBypassingQueue"
    and rt: "same_runtime rt es" "same_runtime rt es'"
    and ttl: "no_ttl (wstore w)" "\<not> sets_ttl rt u args"
    and run: "run_handler disp es (SHandler sp) w ctx args = Some (v, w', ctx')"
  shows "\<exists>v'. Dispatch 2 es' (restarted (wstore w) f) NewContext u args =
      Some (v', restarted (wstore w') f, NewContext)"
    and "no_ttl (wstore w')"
proof -
  have name: "Name sp = u" and rep: "spec_replays sp"
    using NewRegistry_lookup [OF sp(1)] all_specs_replay by (auto simp: list_all_iff)
  have "run_handler disp (\<lambda>_. es' 0) (SHandler sp) w ctx args = run_handler disp es (SHandler sp) w ctx args \<and> no_ttl (wstore w')
      \<or> SHandler sp = ConnHandler publish_cmd"
  proof (cases "SHandler sp")
    case (StoreHandler h)
    then have r: "replays (\<lambda>rt args. \<not> sets_ttl rt u args) h"
      using rep sp(3) name by (simp add: spec_replays_def)
    have "Runtime.truncate (es 0) = rt" "Runtime.truncate (es' 0) = rt"
      using rt by (simp_all add: same_runtime_def)
    with r ttl have "h (es 0) (wstore w) args = h (es' 0) (wstore w) args"
        "h (es 0) (wstore w) args = Some (x, s') \<Longrightarrow> no_ttl s'" for x s'
      unfolding replays_def by metis+
    with run StoreHandler show ?thesis by (auto simp: run_handler_def)
  qed (use rep sp(3) in \<open>simp_all add: spec_replays_def\<close>)
  then have "\<exists>v1 w1 c1. run_handler disp (\<lambda>_. es' 0) (SHandler sp) w ctx args = Some (v1, w1, c1) \<and> wstore w1 = wstore w' \<and>
      no_ttl (wstore w')"
    using run ttl(1) by (auto simp: run_handler_def publish_cmd_def bind_eq_Some_conv case_prod_beta Let_def)
  with redo_one [OF sp u(1) rt(2)]
  show "\<exists>v'. Dispatch 2 es' (restarted (wstore w) f) NewContext u args =
      Some (v', restarted (wstore w') f, NewContext)" "no_ttl (wstore w')" by (metis, blast)
qed

text \<open>The command \<open>u\<close> with \<open>args\<close> takes the one store to the other, whenever it is replayed.\<close>

definition replays_step :: "Runtime \<Rightarrow> string \<Rightarrow> Value list \<Rightarrow> Store \<Rightarrow> Store \<Rightarrow> bool" where
  "replays_step rt u args s s' \<longleftrightarrow> no_ttl s' \<and> wire_ok (Array (Bulk u # args)) \<and>
     (\<forall>es f. same_runtime rt es \<longrightarrow>
        (\<exists>v. Dispatch 2 es (restarted s f) NewContext u args = Some (v, restarted s' f, NewContext)))"

lemma replays_to_snoc:
  assumes rec: "replays_to rt cs s" and step: "replays_step rt u args s s'"
  shows "replays_to rt (cs @ [Bulk u # args]) s'"
proof -
  have "run_all (replay_fn es) (cs @ [Bulk u # args]) (restarted New f, NewContext, 0) =
      Some (ReplayDone, (restarted s' f, NewContext, length (cs @ [Bulk u # args])))"
    if rt: "\<forall>n. same_runtime rt (es n)" for es f
  proof -
    obtain v where "Dispatch 2 (es (length cs)) (restarted s f) NewContext u args =
        Some (v, restarted s' f, NewContext)" using step rt unfolding replays_step_def by blast
    with rec rt show ?thesis
      by (simp add: replays_to_def run_all_append replay_fn_def Bulk_def)
  qed
  with rec step show ?thesis by (simp add: replays_to_def replays_step_def)
qed

lemma recoverable_snoc:
  assumes "recoverable rt w" "waof w' = aof_Append (Bulk u # args) (waof w)"
    and "replays_step rt u args (wstore w) (wstore w')"
  shows "recoverable rt w'"
  using assms replays_to_snoc unfolding recoverable_def by (metis aof_file_snoc)

lemma wire_ok_logged:
  "fmlookup NewRegistry u = Some sp \<Longrightarrow> durable_cmd rt u args \<Longrightarrow> wire_ok (Array (Bulk u # args))"
  by (auto simp: durable_cmd_def value_defs dest: registry_name_short)

lemma recover_plain:
  assumes rt: "same_runtime rt es" and ok: "session_ok rt w ctx" and tx: "\<not> inTx ctx"
    and up: "ToUpper rt name = u" "ToUpper rt u = u" "u \<notin> set commandsBypassingQueue"
    and aof: "OnWrite ctx" and rec: "recoverable rt w" and dur: "durable_cmd rt u args"
    and run: "Dispatch (Suc d) es w ctx name args = Some (v, w', ctx')"
  shows "recoverable rt w'"
proof (cases "validate rt u args")
  case (Inl e)
  with run rec tx up show ?thesis by (simp add: Dispatch.simps same_runtimeD [OF rt])
next
  case (Inr sp)
  then have sp: "fmlookup NewRegistry u = Some sp" "CheckArity sp (length args)"
    using up(2) by (simp_all add: validate_Inr)
  note ne = registry.table_not_exec [OF sp(1) up(3)]
  obtain w1 where r: "run_handler (Dispatch d) es (SHandler sp) w ctx args = Some (v, w1, ctx')"
      "w' = log_write sp v u args ctx' w1"
    using run tx up Inr
    by (auto simp: Dispatch.simps same_runtimeD [OF rt] split: option.splits)
  have facts: "conn_grows ctx (whub w) ctx' (whub w1)" "vType v = TypeError \<or> \<not> SWrite sp \<longrightarrow> wstore w1 = wstore w"
    using registry.run_store_or_conn [OF sp ne, of w ctx "Dispatch d" es] r(1) ok by (auto simp: session_ok_def)
  have aof1: "waof w1 = waof w"
    using r(1) ne by (auto simp: run_handler_def split: Handler.splits)
  show ?thesis
  proof (cases "SWrite sp \<and> vType v \<noteq> TypeError")
    case True
    have ttl: "no_ttl (wstore w)" "\<not> sets_ttl rt u args"
      using recoverable_no_ttl [OF rec] dur by (simp_all add: durable_cmd_def)
    have w': "wstore w' = wstore w1" "waof w' = aof_Append (Bulk u # args) (waof w)"
      using True r(2) facts(1) aof aof1 by (simp_all add: log_write_def conn_grows_def)
    from True have wr: "SWrite sp" ..
    have "replays_step rt u args (wstore w) (wstore w')"
      unfolding replays_step_def w'(1)
      using replay_one [OF sp wr up(2,3) rt _ ttl r(1)] rt wire_ok_logged [OF sp(1) dur] by blast
    with rec w'(2) show ?thesis by (rule recoverable_snoc)
  next
    case False
    then have "w' = w1" using r(2) by (auto simp: log_write_def)
    with False facts(2) aof1 rec recoverable_cong [of w' w rt] show ?thesis by auto
  qed
qed

definition durable_queue :: "Runtime \<Rightarrow> Context \<Rightarrow> bool" where
  "durable_queue rt ctx \<longleftrightarrow> list_all (\<lambda>qc. durable_cmd rt (qName qc) (qArgs qc)) (queue ctx)"

lemma recover_exec_queue:
  assumes rt: "same_runtime rt es"
  shows "list_all (queued_ok rt) q \<Longrightarrow> list_all (\<lambda>qc. durable_cmd rt (qName qc) (qArgs qc)) q \<Longrightarrow>
    session_ok rt w ctx \<Longrightarrow> \<not> inTx ctx \<Longrightarrow> OnWrite ctx \<Longrightarrow> recoverable rt w \<Longrightarrow>
    exec_queue (Dispatch (Suc d)) es i q w ctx = Some (vs, w', ctx') \<Longrightarrow> recoverable rt w'"
proof (induction q arbitrary: i w ctx vs)
  case (Cons qc q)
  have qc: "ToUpper rt (qName qc) = qName qc" "qName qc \<notin> set commandsBypassingQueue"
      "durable_cmd rt (qName qc) (qArgs qc)"
    using Cons.prems(1,2) by (simp_all add: queued_ok_def)
  obtain v w1 c1 where 1: "Dispatch (Suc d) (\<lambda>_. es i) w ctx (qName qc) (qArgs qc) = Some (v, w1, c1)"
      "session_ok rt w1 c1" "conn_grows ctx (whub w) c1 (whub w1)" "same_tx ctx c1"
    using Dispatch_plain [OF same_runtimeD(3) [OF rt] Cons.prems(3,4) qc(1,1,2)] by blast
  obtain vs' where 2: "exec_queue (Dispatch (Suc d)) es (Suc i) q w1 c1 = Some (vs', w', ctx')"
    using Cons.prems(7) 1(1) by (auto split: option.splits)
  have "recoverable rt w1"
    by (rule recover_plain [OF same_runtimeD(3) [OF rt] Cons.prems(3,4) qc(1,1,2) Cons.prems(5,6) qc(3) 1(1)])
  moreover have "\<not> inTx c1" "OnWrite c1"
    using 1(3,4) Cons.prems(4,5) by (simp_all add: same_tx_def conn_grows_def)
  ultimately show ?case using Cons.IH [OF _ _ 1(2) _ _ _ 2] Cons.prems(1,2) by simp
qed simp

text \<open>One request of a connection whose commands set no expiry times.\<close>

definition durable_ctx :: "Runtime \<Rightarrow> Context \<Rightarrow> bool" where
  "durable_ctx rt ctx \<longleftrightarrow> OnWrite ctx \<and> durable_queue rt ctx"

lemma recover_exec:
  assumes rt: "same_runtime rt es" and ok: "session_ok rt w ctx"
    and dur: "durable_ctx rt ctx" and rec: "recoverable rt w"
    and run: "exec_cmd (Dispatch (Suc d)) es w ctx = Some (v, w', ctx')"
  shows "recoverable rt w'"
proof (cases "inTx ctx \<and> \<not> txError ctx")
  case True
  define c0 where "c0 = ctx\<lparr>inTx := False, queue := [], txError := False\<rparr>"
  have c0: "session_ok rt w c0" "\<not> inTx c0" "OnWrite c0" "list_all (queued_ok rt) (queue ctx)"
      "list_all (\<lambda>qc. durable_cmd rt (qName qc) (qArgs qc)) (queue ctx)"
    using ok dur by (simp_all add: c0_def session_ok_def sub_alloc_def durable_ctx_def durable_queue_def)
  obtain vs where "exec_queue (Dispatch (Suc d)) es 1 (queue ctx) w c0 = Some (vs, w', ctx')"
    using run True by (auto simp: exec_cmd_def c0_def Let_def split: option.splits)
  from recover_exec_queue [OF rt c0(4,5,1,2,3) rec this] show ?thesis .
next
  case False
  with run rec show ?thesis by (auto simp: exec_cmd_def Let_def split: if_splits)
qed

lemma durable_ctx_step:
  assumes "durable_ctx rt ctx" "conn_grows ctx h ctx' h'"
    and "queue ctx' = queue ctx \<or> queue ctx' = [] \<or>
      (\<exists>u args. queue ctx' = queue ctx @ [\<lparr>qName = u, qArgs = args\<rparr>] \<and> durable_cmd rt u args)"
  shows "durable_ctx rt ctx'"
  using assms by (auto simp: durable_ctx_def conn_grows_def durable_queue_def)

lemma exec_cmd_queue:
  assumes rt: "same_runtime rt es" and ok: "session_ok rt w ctx"
    and run: "exec_cmd (Dispatch (Suc d)) es w ctx = Some (v, w', ctx')"
  shows "queue ctx' = []"
  using exec_cmd_ok [OF rt ok, of d] run by (auto simp: session_ok_def)

lemma recover_tx:
  assumes rt: "same_runtime rt es" and ok: "session_ok rt w ctx"
    and cdur: "durable_ctx rt ctx" and rec: "recoverable rt w"
    and sp: "fmlookup NewRegistry u = Some sp" "CheckArity sp (length args)" "u \<in> set commandsBypassingQueue"
    and run: "run_handler (Dispatch (Suc d)) es (SHandler sp) w ctx args = Some (v, w', ctx')"
  shows "recoverable rt w' \<and> (queue ctx' = queue ctx \<or> queue ctx' = [])"
proof (cases "SHandler sp = ExecHandler")
  case True
  then have x: "exec_cmd (Dispatch (Suc d)) es w ctx = Some (v, w', ctx')"
    using run by (simp add: run_handler_def)
  from recover_exec [OF rt ok cdur rec x] exec_cmd_queue [OF rt ok x] show ?thesis by simp
next
  case False
  have "same_tx ctx ctx' \<or> queue ctx' = []" "wstore w' = wstore w"
    using registry.run_store_or_conn [OF sp(1,2) False, of w ctx "Dispatch (Suc d)" es] run ok
      registry_tx_no_write [OF sp(1,3)] by (auto simp: session_ok_def)
  moreover have "waof w' = waof w"
    using run False by (auto simp: run_handler_def split: Handler.splits)
  ultimately show ?thesis
    using rec recoverable_cong [of w' w rt] by (auto simp: same_tx_def)
qed

lemma recover_dispatch:
  assumes rt: "same_runtime rt es" and up: "upper_idem rt" and ok: "session_ok rt w ctx"
    and cdur: "durable_ctx rt ctx" and rec: "recoverable rt w" and dur: "durable_cmd rt (ToUpper rt name) args"
    and run: "Dispatch (Suc (Suc d)) es w ctx name args = Some (v, w', ctx')"
  shows "recoverable rt w' \<and> durable_ctx rt ctx'"
proof -
  define u where "u = ToUpper rt name"
  have u: "ToUpper rt u = u" using up by (simp add: u_def upper_idem_def)
  note sr = same_runtimeD [OF rt]
  have grows: "conn_grows ctx (whub w) ctx' (whub w')" using Dispatch_ok [OF rt up ok, of d name args] run by simp
  note dstep = durable_ctx_step [OF cdur grows]
  from rt u_def show ?thesis
  proof (cases rule: Dispatch_cases [where ctx = ctx and d = "Suc d" and w = w and args = args])
    case plain
    have "recoverable rt w'"
      by (rule recover_plain [OF rt ok plain(2) u_def [symmetric] u plain(1) _ rec _ run])
        (use cdur dur in \<open>simp_all add: durable_ctx_def u_def\<close>)
    moreover have "queue ctx' = queue ctx"
      using Dispatch_plain [OF rt ok plain(2) u_def [symmetric] u plain(1), of "Suc d" args] run
      by (simp add: same_tx_def)
    ultimately show ?thesis using dstep by simp
  next
    case queued
    then have "w' = w" "queueCommand (es 0) u args ctx = (v, ctx')"
      using run by (auto simp: prod_eq_iff)
    moreover from this have "queue ctx' = queue ctx \<or> queue ctx' = queue ctx @ [\<lparr>qName = u, qArgs = args\<rparr>]"
      by (auto simp: queueCommand_def split: sum.splits)
    ultimately show ?thesis using rec dstep dur unfolding u_def by blast
  next
    case (err e)
    with run rec cdur show ?thesis by simp
  next
    case (tx sp)
    then have sp: "fmlookup NewRegistry u = Some sp" "CheckArity sp (length args)"
      by (simp_all add: validate_Inr u)
    obtain w1 where r: "run_handler (Dispatch (Suc d)) es (SHandler sp) w ctx args = Some (v, w1, ctx')"
        "w' = log_write sp v u args ctx' w1"
      using run tx by auto
    have "w' = w1" using r(2) registry_tx_no_write [OF sp(1) tx(1)] by (simp add: log_write_def)
    with recover_tx [OF rt ok cdur rec sp tx(1), of d v w' ctx'] r(1) dstep show ?thesis by auto
  qed
qed

subsection \<open>A whole connection, and the restart\<close>

text \<open>A request whose command sets no expiry time.\<close>

definition durable_req :: "Runtime \<Rightarrow> Value \<Rightarrow> bool" where
  "durable_req rt req \<longleftrightarrow> wire_ok req \<and>
     (vType req = TypeArray \<and> vElems req \<noteq> [] \<longrightarrow>
        \<not> sets_ttl rt (ToUpper rt (vStr (hd (vElems req)))) (tl (vElems req)))"

lemma durable_req_cmd:
  assumes "durable_req rt req" "vType req = TypeArray" "vElems req \<noteq> []"
  shows "durable_cmd rt (ToUpper rt (vStr (hd (vElems req)))) (tl (vElems req))"
proof -
  obtain x xs where x: "vElems req = x # xs" using assms(3) by (cases "vElems req") auto
  with assms show ?thesis
    by (cases req) (auto simp: durable_req_def durable_cmd_def split: if_splits)
qed

lemma recover_request:
  assumes rt: "same_runtime rt es" and up: "upper_idem rt" and ok: "session_ok rt w ctx"
    and cdur: "durable_ctx rt ctx" and rec: "recoverable rt w" and dur: "durable_req rt req"
    and run: "handle_request es w ctx req = Some (v, b, w', ctx')"
  shows "recoverable rt w' \<and> durable_ctx rt ctx'"
proof (cases "vType req = TypeArray \<and> vElems req \<noteq> [] \<and>
    \<not> (InSubscriberMode ctx (whub w) \<and> ToUpper rt (vStr (hd (vElems req))) \<notin> set subscriberModeAllowed)")
  case True
  define name where "name = ToUpper rt (vStr (hd (vElems req)))"
  have idem: "ToUpper rt name = name" using up by (simp add: name_def upper_idem_def)
  have disp: "Dispatch (Suc (Suc 0)) es w ctx name (tl (vElems req)) = Some (v, w', ctx')"
    using run True
    by (auto simp: handle_request_def Let_def same_runtimeD [OF rt] name_def numeral_2_eq_2 split: if_splits)
  have "durable_cmd rt name (tl (vElems req))" using durable_req_cmd [OF dur] True by (simp add: name_def)
  with recover_dispatch [OF rt up ok cdur rec _ disp] idem show ?thesis by simp
next
  case False
  with run rec cdur show ?thesis
    by (auto simp: handle_request_def Let_def same_runtimeD [OF rt] split: if_splits)
qed

lemma recover_serve:
  assumes rt: "\<And>i. same_runtime rt (es i)" and up: "upper_idem rt"
  shows "list_all (durable_req rt) reqs \<Longrightarrow> session_ok rt w ctx \<Longrightarrow> durable_ctx rt ctx \<Longrightarrow> recoverable rt w \<Longrightarrow>
    serve wok es i (requests reqs) w ctx out = Some (out', w', ctx') \<Longrightarrow> recoverable rt w'"
proof (induction reqs arbitrary: i w ctx out)
  case Nil
  then have "w' = w"
    by (subst (asm) serve.simps) (simp add: requests_def resp_codec.dec_empty)
  with Nil show ?case by simp
next
  case (Cons r reqs)
  have "wire_ok r" using Cons.prems(1) by (simp add: durable_req_def)
  then have read: "Read (requests (r # reqs)) = Inr (r, requests reqs)"
    by (simp add: requests_def resp_codec.dec_enc)
  obtain v b w1 c1 where h: "handle_request (es i) w ctx r = Some (v, b, w1, c1)" "session_ok rt w1 c1"
    using handle_request_ok [OF rt up Cons.prems(2)] by blast
  have d: "recoverable rt w1" "durable_ctx rt c1"
    using recover_request [OF rt up Cons.prems(2,3,4) _ h(1)] Cons.prems(1) by simp_all
  have IH: "serve wok es (Suc i) (requests reqs) w1 c1 o1 = Some (out', w', ctx') \<Longrightarrow> recoverable rt w'" for o1
    using Cons.IH [OF _ h(2) d(2,1)] Cons.prems(1) by simp
  from Cons.prems(5) d(1) show ?case
    by (subst (asm) serve.simps) (auto simp: read h(1) split: if_splits dest: IH)
qed

lemma recoverable_restart:
  assumes "recoverable rt w" "\<And>n. same_runtime rt (es n)" "AOFPath cfg \<noteq> []"
  shows "server_New es cfg (Some (waof w)) = Some (Inr \<lparr>wstore = wstore w, whub = NewHub, waof = waof w\<rparr>)"
proof -
  obtain cs where cs: "waof w = aof_file cs" "list_all (\<lambda>c. wire_ok (Array c)) cs"
      "run_all (replay_fn es) cs (restarted New (waof w), NewContext, 0) =
         Some (ReplayDone, (restarted (wstore w) (waof w), NewContext, length cs))"
    using assms(1,2) unfolding recoverable_def replays_to_def by blast
  with assms(3) show ?thesis
    by (simp add: server_New_def server_replay_def restarted_def Replay_aof_file)
qed

lemma recoverable_New: "recoverable rt \<lparr>wstore = New, whub = h, waof = []\<rparr>"
  unfolding recoverable_def by (rule exI [of _ "[]"]) (simp add: replays_to_def ttl_intros)

text \<open>Clients served one after another: what each sends, and the choices made while it is served.\<close>

record client =
  cl_reqs :: "Value list"
  cl_env :: "nat \<Rightarrow> nat \<Rightarrow> Env"
  cl_writes :: "nat \<Rightarrow> bool"
  cl_iter :: "nat list"

fun serve_clients :: "bool \<Rightarrow> client list \<Rightarrow> World \<Rightarrow> World option" where
  "serve_clients aof [] w = Some w"
| "serve_clients aof (c # cs) w =
     (case handleConn aof (cl_writes c) (cl_env c) (cl_iter c) (requests (cl_reqs c)) w of
        None \<Rightarrow> None | Some (out, w') \<Rightarrow> serve_clients aof cs w')"

definition client_ok :: "Runtime \<Rightarrow> client \<Rightarrow> bool" where
  "client_ok rt c \<longleftrightarrow> (\<forall>i. same_runtime rt (cl_env c i)) \<and> list_all (durable_req rt) (cl_reqs c)"

lemma recover_conn:
  assumes up: "upper_idem rt" and c: "client_ok rt c"
    and w: "wf_store (wstore w)" "wf_hub (whub w)" "recoverable rt w"
  shows "\<exists>out w'. handleConn True (cl_writes c) (cl_env c) (cl_iter c) (requests (cl_reqs c)) w = Some (out, w') \<and>
    wf_store (wstore w') \<and> wf_hub (whub w') \<and> recoverable rt w'"
proof -
  obtain w1 ctx where o: "conn_open True w = (w1, ctx)" by fastforce
  note opened = conn_open_ok [OF w(1,2) o]
  have rt: "same_runtime rt (cl_env c i)" for i using c by (simp add: client_ok_def)
  have d: "list_all (durable_req rt) (cl_reqs c)" using c by (simp add: client_ok_def)
  have "list_all wire_ok (cl_reqs c)" using d by (auto simp: list_all_iff durable_req_def)
  from serve_total [where es = "cl_env c" and wok = "cl_writes c" and i = 0 and out = "[]", OF rt up this opened(1)]
  obtain out w2 ctx2 where s: "serve (cl_writes c) (cl_env c) 0 (requests (cl_reqs c)) w1 ctx [] = Some (out, w2, ctx2)"
      "session_ok rt w2 ctx2" by blast
  have "recoverable rt w1" using recoverable_cong [OF opened(2,3)] w(3) by simp
  moreover have "durable_ctx rt ctx" by (simp add: durable_ctx_def durable_queue_def opened(4,7))
  ultimately have "recoverable rt w2" using recover_serve [where es = "cl_env c", OF rt up d opened(1) _ _ s(1)] by blast
  with s show ?thesis
    by (simp add: handleConn_def o recoverable_def session_ok_def wf_ctx_Close)
qed

lemma recover_clients:
  assumes up: "upper_idem rt"
  shows "list_all (client_ok rt) cs \<Longrightarrow> wf_store (wstore w) \<Longrightarrow> wf_hub (whub w) \<Longrightarrow> recoverable rt w \<Longrightarrow>
    \<exists>w'. serve_clients True cs w = Some w' \<and> recoverable rt w'"
proof (induction cs arbitrary: w)
  case (Cons c cs)
  have "client_ok rt c" using Cons.prems(1) by simp
  from recover_conn [OF up this Cons.prems(2-4)] Cons show ?case by fastforce
qed simp

lemma Dispatch_subscriber_cmd:
  assumes "same_runtime rt es" "upper_idem rt" "session_ok rt w ctx"
    and "ToUpper rt u = u" "u \<in> set subscriberModeAllowed"
  shows "\<exists>v w' ctx'. Dispatch 2 es w ctx u args = Some (v, w', ctx') \<and> wstore w' = wstore w \<and> waof w' = waof w"
proof -
  have "list_all (\<lambda>sp. Name sp \<in> set subscriberModeAllowed \<longrightarrow>
      \<not> SWrite sp \<and> Name sp \<notin> set commandsBypassingQueue) all_specs"
    by (simp add: all_specs_def command_lists subscriberModeAllowed_def commandsBypassingQueue_def)
  then have "\<not> SWrite sp" if "fmlookup NewRegistry u = Some sp" for sp
    using NewRegistry_lookup [OF that] assms(5) by (auto simp: list_all_iff)
  moreover have "u \<notin> set commandsBypassingQueue"
    using assms(5) by (auto simp: subscriberModeAllowed_def commandsBypassingQueue_def)
  ultimately show ?thesis
    using Dispatch_not_write [OF assms(1,3,4), of "Suc 0" args] by (simp add: numeral_2_eq_2)
qed

end
