(* ===== verification/Samples.thy ===== *)
theory Samples
  imports Recovery
begin

section \<open>A concrete environment\<close>

text \<open>The runtime, clock and server on which the properties of the server are instantiated.\<close>

definition sample_rt :: Runtime where
  "sample_rt = \<lparr>parseFloat = (\<lambda>_. None), formatFloat = (\<lambda>_. ''0''), unicodeUpper = (\<lambda>s. s),
     unicodeLower = (\<lambda>s. s), pathMatch = (=), goVersion = ''go1.22'', goos = ''linux'', goarch = ''amd64''\<rparr>"

definition sample_env :: "Time \<Rightarrow> Env" where
  "sample_env t = Runtime.extend sample_rt \<lparr>clk = (\<lambda>_. t), iter = []\<rparr>"

definition sample_world :: World where
  "sample_world = \<lparr>wstore = New, whub = NewHub, waof = []\<rparr>"

lemma sample_runtime [simp]: "same_runtime sample_rt (\<lambda>_. sample_env t)" "clk (sample_env t) = (\<lambda>_. t)"
  by (simp_all add: same_runtime_def sample_env_def sample_rt_def Runtime.defs)

lemma sample_upper [simp]: "upper_idem sample_rt"
  by (auto simp: upper_idem_def ToUpper_def sample_rt_def)

lemma sample_session [simp]: "session_ok sample_rt sample_world NewContext"
  by (simp add: session_ok_def sample_world_def NewContext_def sub_alloc_def wf_New wf_NewHub)

lemma sample_world_sel [simp]: "wstore sample_world = New" "whub sample_world = NewHub" "waof sample_world = []"
  by (simp_all add: sample_world_def)

lemma sample_lookups:
  "fmlookup NewRegistry ''GET'' = Some (exact ''GET'' (StoreHandler get_cmd) 1)"
  "fmlookup NewRegistry ''INCR'' = Some (writes (exact ''INCR'' (StoreHandler incr_cmd) 1))"
  "fmlookup NewRegistry ''SETEX'' = Some (writes (exact ''SETEX'' (StoreHandler setEX_cmd) 3))"
  "fmlookup NewRegistry ''NOSUCH'' = None"
  "fmlookup NewRegistry ''SET'' = Some (writes (at_least ''SET'' (StoreHandler set_cmd) 2))"
  "fmlookup NewRegistry ''MULTI'' = Some (exact ''MULTI'' (ConnHandler multi_cmd) 0)"
  "fmlookup NewRegistry ''EXEC'' = Some (exact ''EXEC'' ExecHandler 0)"
  by (simp_all add: NewRegistry_fold all_specs_def command_lists)

lemma setEX_cmd_plain:
  "setEX_cmd env s [Bulk k, Bulk (FormatInt n), Bulk v] =
     Some (OK, put k ((string_entry v)\<lparr>expireAt := clk env 1 + sint (n * time_Second)\<rparr>) s)"
  by (simp add: setEX_cmd_def arg_def Set_def no_options_def Bulk_def finish_def reply_or_err_def timeAdd_def Let_def)

lemma sample_uppers:
  "ToUpper rt ''GET'' = ''GET''" "ToUpper rt ''incr'' = ''INCR''" "ToUpper rt ''INCR'' = ''INCR''"
  "ToUpper rt ''SETEX'' = ''SETEX''" "ToUpper rt ''NOSUCH'' = ''NOSUCH''" "ToUpper rt ''EXEC'' = ''EXEC''"
  "ToUpper rt ''MULTI'' = ''MULTI''" "ToUpper rt ''SET'' = ''SET''"
  by (simp_all add: ToUpper_def ascii_def upper_char_def char_of_def bit_iff_odd)

end
