(* ===== verification/StepSystem.thy ===== *)
theory StepSystem
  imports Main
begin

section \<open>Runs of a step relation\<close>

text \<open>
  The interface between a step relation with an invariant and its finite runs. The log file,
  the interleaved connections and the life of the server have each their own steps, labels
  and traces; a trace begins as \<open>none\<close> and grows by \<open>ext\<close> with every step. What follows for
  runs from the steps is proved once, here.
\<close>

locale step_system =
  fixes step :: "'s \<Rightarrow> 'l \<Rightarrow> 's \<Rightarrow> bool" and run :: "'s \<Rightarrow> 't \<Rightarrow> 's \<Rightarrow> bool"
    and none :: 't and ext :: "'t \<Rightarrow> 'l \<Rightarrow> 't" and ok :: "'s \<Rightarrow> bool"
  assumes run_cases: "run s t s' \<Longrightarrow> P none s \<Longrightarrow>
      (\<And>t l s1 s2. run s t s1 \<Longrightarrow> P t s1 \<Longrightarrow> step s1 l s2 \<Longrightarrow> P (ext t l) s2) \<Longrightarrow> P t s'"
    and step_ok: "step s l s' \<Longrightarrow> ok s \<Longrightarrow> ok s'"
begin

text \<open>Induction along a run in which every state satisfies the invariant.\<close>

lemma run_induct [consumes 2, case_names none ext]:
  assumes "run s t s'" "ok s" "P none s"
    and "\<And>t l s1 s2. run s t s1 \<Longrightarrow> ok s1 \<Longrightarrow> step s1 l s2 \<Longrightarrow> P t s1 \<Longrightarrow> P (ext t l) s2"
  shows "P t s'"
  using run_cases [of s t s' "\<lambda>t s. ok s \<and> P t s"] assms step_ok by blast

lemma run_ok: "run s t s' \<Longrightarrow> ok s \<Longrightarrow> ok s'"
  using run_cases [of s t s' "\<lambda>_. ok"] step_ok by blast

text \<open>What each step keeps or moves one way only, a run does, too.\<close>

lemma run_keeps:
  assumes "run s t s'" "ok s" "\<And>s l s'. ok s \<Longrightarrow> step s l s' \<Longrightarrow> f s' = f s"
  shows "f s' = f s"
  using assms(1,2) by (induction rule: run_induct) (auto dest: assms(3))

lemma run_mono:
  assumes "run s t s'" "ok s" "\<And>s l s'. ok s \<Longrightarrow> step s l s' \<Longrightarrow> le s s'" "reflp le" "transp le"
  shows "le s s'"
  using assms(1,2)
proof (induction rule: run_induct)
  case none
  from assms(4) show ?case by (rule reflpD)
next
  case (ext t l s1 s2)
  with assms(3,5) show ?case by (blast dest: transpD)
qed

end

text \<open>Steps that use up a rank: the rank bounds the length of every run.\<close>

locale ranked_system = step_system +
  fixes rank :: "'a \<Rightarrow> nat" and size :: "'c \<Rightarrow> nat"
  assumes size_none: "size none = 0" and size_ext: "size (ext t l) = Suc (size t)"
    and step_rank: "step s l s' \<Longrightarrow> ok s \<Longrightarrow> rank s' < rank s"
begin

lemma run_bound:
  assumes "run s t s'" "ok s"
  shows "size t + rank s' \<le> rank s"
  using assms
proof (induction rule: run_induct)
  case (ext t l s1 s2)
  with step_rank [OF ext(3,2)] show ?case by (simp add: size_ext)
qed (simp add: size_none)

end

end
