(* ===== verification/Concurrency.thy ===== *)
theory Concurrency
  imports Recovery StepSystem
begin

section \<open>Interleaving of the goroutines\<close>

text \<open>
  The server as the goroutines run it: one per connection for the request loop of
  \<open>handleConn\<close>, one for its \<open>forwardPubSub\<close>, and the sweeper of the store. A step is what
  one goroutine does up to its next access to state that it shares:

  \<^item> a handler on the store is one step, because it makes one call of a method of \<open>Store\<close>,
    which holds the mutex throughout; what comes before it in \<open>Dispatch\<close> is local to the
    connection;
  \<^item> \<open>SUBSCRIBE\<close> and \<open>UNSUBSCRIBE\<close> take one step per channel. \<open>Hub.Subscribe\<close> locks the
    hub and then the subscriber, whose own set of channels no other goroutine reads, so
    the two critical sections are one step;
  \<^item> \<open>PUBLISH\<close> takes the snapshot of the subscribers in one step and sends to each of them
    in a step of its own;
  \<^item> \<open>OnWrite\<close> is a step of its own: \<open>Dispatch\<close> calls it after the handler has released
    the mutex of the store;
  \<^item> \<open>exec\<close> dispatches each queued command by itself, with no lock around the loop;
  \<^item> \<open>safeWrite\<close> takes two steps: getting the connection's \<open>writeMu\<close>, for which the request
    loop and the forwarder compete, and the write to the socket with the mutex held. The
    second step comes when the client has read enough, so it may never come. A write that
    fails counts as having sent nothing.

  A connection's step is a function; \<open>sys_step\<close> interleaves them.
\<close>

subsection \<open>Definitions: a call of a handler\<close>

text \<open>
  \<open>CallSub\<close> and \<open>CallUnsub\<close> have the channels to come and the frames so far, \<open>CallPub\<close> the
  subscribers to come and the count so far; \<open>CallRet\<close> has returned.
\<close>

datatype call =
    CallSub nat "string list" "Value list"
  | CallUnsub nat "string list" "Value list"
  | CallPub Message "nat list" nat
  | CallRet Value

definition begin_call ::
    "Env \<Rightarrow> Spec \<Rightarrow> World \<Rightarrow> Context \<Rightarrow> Value list \<Rightarrow> (call \<times> World \<times> Context) option" where
  "begin_call env spec w ctx args =
     (case SHandler spec of
        StoreHandler h \<Rightarrow>
          map_option (\<lambda>(v, st). (CallRet v, w\<lparr>wstore := st\<rparr>, ctx)) (h env (wstore w) args)
      | ConnHandler h \<Rightarrow>
          (if Name spec = ''SUBSCRIBE''
           then (let (i, ctx', hub) = ctx_Subscriber ctx (whub w)
                 in Some (CallSub i (argStrings args) [], w\<lparr>whub := hub\<rparr>, ctx'))
           else if Name spec = ''UNSUBSCRIBE''
           then (let (i, ctx', hub) = ctx_Subscriber ctx (whub w);
                     chs = (if args = [] then Channels (iter env) hub i else argStrings args)
                 in Some (if chs = []
                          then CallRet (MultiFrame [Array [Bulk ''unsubscribe'', NullBulk, IntV 0]])
                          else CallUnsub i chs [], w\<lparr>whub := hub\<rparr>, ctx'))
           else if Name spec = ''PUBLISH''
           then do { ch \<leftarrow> arg 0 args; p \<leftarrow> arg 1 args;
                  Some (CallPub \<lparr>Channel = ch, Payload = p\<rparr>
                          (range_fset (iter env) (chan_subs (whub w) ch)) 0, w, ctx) }
           else map_option (\<lambda>(v, ctx', hub). (CallRet v, w\<lparr>whub := hub\<rparr>, ctx'))
                  (h env ctx (whub w) args))
      | ExecHandler \<Rightarrow> None)"

fun call_step :: "call \<Rightarrow> Hub \<Rightarrow> call \<times> Hub" where
  "call_step (CallSub i [] fs) h = (CallRet (MultiFrame fs), h)"
| "call_step (CallSub i (ch # chs) fs) h =
     (let (n, h') = Subscribe i ch h in (CallSub i chs (fs @ [sub_frame ''subscribe'' ch n]), h'))"
| "call_step (CallUnsub i [] fs) h = (CallRet (MultiFrame fs), h)"
| "call_step (CallUnsub i (ch # chs) fs) h =
     (let (n, h') = Unsubscribe i ch h in (CallUnsub i chs (fs @ [sub_frame ''unsubscribe'' ch n]), h'))"
| "call_step (CallPub m [] n) h = (CallRet (int_reply n), h)"
| "call_step (CallPub m (i # is) n) h = (let (n', h') = deliver m i (n, h) in (CallPub m is n', h'))"
| "call_step (CallRet v) h = (CallRet v, h)"

subsection \<open>Definitions: dispatch up to the first shared access\<close>

datatype begun =
    Replied Value
  | Started Spec string "Value list" call
  | StartExec Spec string "QueuedCommand list"

definition dispatch_begin ::
    "Env \<Rightarrow> World \<Rightarrow> Context \<Rightarrow> string \<Rightarrow> Value list \<Rightarrow> (begun \<times> World \<times> Context) option" where
  "dispatch_begin env w ctx name args =
     (let upper = ToUpper env name
      in if inTx ctx \<and> upper \<notin> set commandsBypassingQueue
         then (let (v, ctx') = queueCommand env upper args ctx in Some (Replied v, w, ctx'))
         else case validate env upper args of
             Inl errVal \<Rightarrow> Some (Replied errVal, w, ctx)
           | Inr spec \<Rightarrow>
               (case SHandler spec of
                  ExecHandler \<Rightarrow>
                    (if \<not> inTx ctx
                     then Some (Started spec upper args (CallRet (Errorf ''ERR EXEC without MULTI'')), w, ctx)
                     else (let ctx' = ctx\<lparr>inTx := False, queue := [], txError := False\<rparr>
                           in if txError ctx
                              then Some (Started spec upper args (CallRet (Errorf
                                     ''EXECABORT Transaction discarded because of previous errors.'')), w, ctx')
                              else Some (StartExec spec upper (queue ctx), w, ctx')))
                | _ \<Rightarrow> map_option (\<lambda>(c, w', ctx'). (Started spec upper args c, w', ctx'))
                         (begin_call env spec w ctx args)))"

subsection \<open>Definitions: a connection\<close>

text \<open>
  Where the request loop is: waiting for a request, in a handler, in the loop of \<open>exec\<close>
  (with the commands to come, the replies so far and the running call), about to lock the
  mutex for a reply (and whether a failing write ends the loop), writing it with the mutex
  held, or unsubscribing at the end.
\<close>

datatype pc =
    Ready
  | Running Spec string "Value list" call
  | Exec Spec string "QueuedCommand list" "Value list" "(Spec \<times> string \<times> Value list \<times> call) option"
  | Reply Value bool
  | Writing Value bool
  | Closing "string list"
  | Done

text \<open>
  Where the forwarder is: in its \<open>select\<close>, about to lock the mutex for a frame, writing it
  with the mutex held, or returned.
\<close>

datatype fwd_pc =
    FwdSelect
  | FwdReply Value
  | FwdWriting Value
  | FwdDone

text \<open>
  \<open>cin\<close> is what the client has yet to send or the server to read, \<open>cout\<close> what was written
  to it. Who holds \<open>writeMu\<close> can be seen from \<open>cpc\<close> and \<open>cfwd\<close>.
\<close>

record Conn =
  cctx :: Context
  cpc :: pc
  cin :: string
  cout :: string
  cfwd :: fwd_pc

fun loop_holds :: "pc \<Rightarrow> bool" where
  "loop_holds (Writing _ _) = True"
| "loop_holds _ = False"

fun fwd_holds :: "fwd_pc \<Rightarrow> bool" where
  "fwd_holds (FwdWriting _) = True"
| "fwd_holds _ = False"

text \<open>The request loop is blocked in \<open>writeMu.Lock\<close>.\<close>

definition waits_mutex :: "Conn \<Rightarrow> bool" where
  "waits_mutex c = (case cpc c of Reply _ _ \<Rightarrow> fwd_holds (cfwd c) | _ \<Rightarrow> False)"

definition begin_close :: "Env \<Rightarrow> World \<Rightarrow> Context \<Rightarrow> pc" where
  "begin_close env w ctx =
     Closing (case sub ctx of None \<Rightarrow> [] | Some i \<Rightarrow> Channels (iter env) (whub w) i)"

definition begin_request :: "Env \<Rightarrow> World \<Rightarrow> Context \<Rightarrow> Value \<Rightarrow> (pc \<times> World \<times> Context) option" where
  "begin_request env w ctx req =
     (if vType req \<noteq> TypeArray \<or> length (vElems req) = 0
      then Some (Reply invalid_request False, w, ctx)
      else (let name = ToUpper env (vStr (hd (vElems req))); args = tl (vElems req)
            in if InSubscriberMode ctx (whub w) \<and> name \<notin> set subscriberModeAllowed
               then Some (Reply (not_in_subscriber_mode env name) False, w, ctx)
               else map_option (\<lambda>(b, w', ctx').
                        (case b of
                           Replied v \<Rightarrow> Reply v True
                         | Started sp u as c \<Rightarrow> Running sp u as c
                         | StartExec sp u q \<Rightarrow> Exec sp u q [] None, w', ctx'))
                      (dispatch_begin env w ctx name args)))"

text \<open>
  One step of the request loop, when it is not blocked; \<open>wok\<close> is whether a write succeeds,
  \<open>None\<close> a panic.
\<close>

definition conn_step :: "Env \<Rightarrow> bool \<Rightarrow> World \<Rightarrow> Conn \<Rightarrow> (World \<times> Conn) option" where
  "conn_step env wok w c =
     (case cpc c of
        Ready \<Rightarrow>
          (case Read (cin c) of
             Inl err \<Rightarrow>
               if err = MakeslicePanic then None
               else Some (w, c\<lparr>cpc := begin_close env w (cctx c)\<rparr>)
           | Inr (req, rest) \<Rightarrow>
               map_option (\<lambda>(p, w', ctx'). (w', c\<lparr>cpc := p, cctx := ctx', cin := rest\<rparr>))
                 (begin_request env w (cctx c) req))
      | Running sp u args (CallRet v) \<Rightarrow>
          Some (log_write sp v u args (cctx c) w, c\<lparr>cpc := Reply v True\<rparr>)
      | Running sp u args call \<Rightarrow>
          (let (call', h) = call_step call (whub w)
           in Some (w\<lparr>whub := h\<rparr>, c\<lparr>cpc := Running sp u args call'\<rparr>))
      | Exec sp u q rs oc \<Rightarrow>
          (case oc of
             Some (sp', u', args, CallRet v) \<Rightarrow>
               Some (log_write sp' v u' args (cctx c) w, c\<lparr>cpc := Exec sp u q (rs @ [v]) None\<rparr>)
           | Some (sp', u', args, call) \<Rightarrow>
               (let (call', h) = call_step call (whub w)
                in Some (w\<lparr>whub := h\<rparr>, c\<lparr>cpc := Exec sp u q rs (Some (sp', u', args, call'))\<rparr>))
           | None \<Rightarrow>
               (case q of
                  [] \<Rightarrow> Some (w, c\<lparr>cpc := Running sp u [] (CallRet (Array rs))\<rparr>)
                | qc # q' \<Rightarrow>
                    (case dispatch_begin env w (cctx c) (qName qc) (qArgs qc) of
                       None \<Rightarrow> None
                     | Some (Replied v, w', ctx') \<Rightarrow>
                         Some (w', c\<lparr>cpc := Exec sp u q' (rs @ [v]) None, cctx := ctx'\<rparr>)
                     | Some (Started sp' u' args call, w', ctx') \<Rightarrow>
                         Some (w', c\<lparr>cpc := Exec sp u q' rs (Some (sp', u', args, call)), cctx := ctx'\<rparr>)
                     | Some (StartExec _ _ _, _, _) \<Rightarrow> None)))
      | Reply v checked \<Rightarrow> Some (w, c\<lparr>cpc := Writing v checked\<rparr>)
      | Writing v checked \<Rightarrow>
          Some (w, if wok then c\<lparr>cpc := Ready, cout := cout c @ Write v\<rparr>
                   else if checked then c\<lparr>cpc := begin_close env w (cctx c)\<rparr>
                   else c\<lparr>cpc := Ready\<rparr>)
      | Closing (ch # chs) \<Rightarrow>
          Some (w\<lparr>whub := (case sub (cctx c) of
                             None \<Rightarrow> whub w | Some i \<Rightarrow> snd (Unsubscribe i ch (whub w)))\<rparr>,
                c\<lparr>cpc := Closing chs\<rparr>)
      | Closing [] \<Rightarrow> Some (w, c\<lparr>cpc := Done\<rparr>)
      | Done \<Rightarrow> Some (w, c))"

text \<open>
  One step of the forwarder: taking a message, locking the mutex, writing (\<open>wok\<close> as above);
  or \<open>stop\<close>, which is closed when the request loop has ended. \<open>None\<close> if the case of the
  \<open>select\<close> is not ready, or the mutex not free.
\<close>

definition forward_step :: "bool \<Rightarrow> World \<Rightarrow> Conn \<Rightarrow> (World \<times> Conn) option" where
  "forward_step wok w c =
     (case cfwd c of
        FwdSelect \<Rightarrow>
          (case sub (cctx c) of
             None \<Rightarrow> None
           | Some i \<Rightarrow>
               map_option (\<lambda>(frame, h). (w\<lparr>whub := h\<rparr>, c\<lparr>cfwd := FwdReply frame\<rparr>)) (forwardPubSub i (whub w)))
      | FwdReply frame \<Rightarrow>
          (if loop_holds (cpc c) then None else Some (w, c\<lparr>cfwd := FwdWriting frame\<rparr>))
      | FwdWriting frame \<Rightarrow>
          Some (w, if wok then c\<lparr>cout := cout c @ Write frame, cfwd := FwdSelect\<rparr> else c\<lparr>cfwd := FwdDone\<rparr>)
      | FwdDone \<Rightarrow> None)"

definition forward_stop :: "Conn \<Rightarrow> Conn option" where
  "forward_stop c =
     (if cfwd c = FwdSelect \<and> (case cpc c of Closing _ \<Rightarrow> True | Done \<Rightarrow> True | _ \<Rightarrow> False)
      then Some (c\<lparr>cfwd := FwdDone\<rparr>) else None)"

subsection \<open>Definitions: the system\<close>

text \<open>A client never announces a length that \<open>make\<close> refuses.\<close>

function input_safe :: "string \<Rightarrow> bool" where
  "input_safe s =
     (case Read s of Inl e \<Rightarrow> e \<noteq> MakeslicePanic | Inr (_, rest) \<Rightarrow> input_safe rest)"
  by pat_completeness auto
termination
  by (relation "measure length") (auto dest: Read_shorter)

declare input_safe.simps [simp del]

record Sys =
  world :: World
  conns :: "(nat, Conn) fmap"
  persists :: bool

text \<open>The command whose handler has returned and which \<open>OnWrite\<close> will log next.\<close>

definition log_due :: "Spec \<Rightarrow> Value \<Rightarrow> Context \<Rightarrow> bool" where
  "log_due sp v ctx \<longleftrightarrow> SWrite sp \<and> vType v \<noteq> TypeError \<and> OnWrite ctx"

fun pending_pc :: "Context \<Rightarrow> pc \<Rightarrow> Value list list" where
  "pending_pc ctx (Running sp u args (CallRet v)) = (if log_due sp v ctx then [Bulk u # args] else [])"
| "pending_pc ctx (Exec _ _ _ _ (Some (sp, u, args, CallRet v))) =
     (if log_due sp v ctx then [Bulk u # args] else [])"
| "pending_pc ctx _ = []"

definition pending :: "Conn \<Rightarrow> Value list list" where
  "pending c = pending_pc (cctx c) (cpc c)"

text \<open>What a step of connection \<open>i\<close> logs and what it commits.\<close>

datatype event = Logged nat "Value list" | Committed nat "Value list"

definition step_events :: "nat \<Rightarrow> Conn \<Rightarrow> Conn \<Rightarrow> event list" where
  "step_events i c c' = map (Logged i) (pending c) @ map (Committed i) (pending c')"

inductive sys_step :: "Runtime \<Rightarrow> Sys \<Rightarrow> nat option \<Rightarrow> event list \<Rightarrow> Sys \<Rightarrow> bool" for rt where
  accept: "i |\<notin>| fmdom (conns s) \<Longrightarrow> conn_open (persists s) (world s) = (w, ctx) \<Longrightarrow> input_safe input \<Longrightarrow>
    sys_step rt s None []
      (s\<lparr>world := w, conns := fmupd i \<lparr>cctx = ctx, cpc = Ready, cin = input, cout = [], cfwd = FwdSelect\<rparr> (conns s)\<rparr>)"
| request: "fmlookup (conns s) i = Some c \<Longrightarrow> cpc c \<noteq> Done \<Longrightarrow> Runtime.truncate env = rt \<Longrightarrow>
    conn_step env wok (world s) c = Some (w, c') \<Longrightarrow> \<not> waits_mutex c \<Longrightarrow>
    sys_step rt s (Some i) (step_events i c c') (s\<lparr>world := w, conns := fmupd i c' (conns s)\<rparr>)"
| forward: "fmlookup (conns s) i = Some c \<Longrightarrow> forward_step wok (world s) c = Some (w, c') \<Longrightarrow>
    sys_step rt s None [] (s\<lparr>world := w, conns := fmupd i c' (conns s)\<rparr>)"
| forward_end: "fmlookup (conns s) i = Some c \<Longrightarrow> forward_stop c = Some c' \<Longrightarrow>
    sys_step rt s None [] (s\<lparr>conns := fmupd i c' (conns s)\<rparr>)"
| sweep: "\<not> stopSweep (wstore (world s)) \<Longrightarrow> sys_step rt s None []
    (s\<lparr>world := (world s)\<lparr>wstore := sweepExpired now (wstore (world s))\<rparr>\<rparr>)"

inductive sys_run :: "Runtime \<Rightarrow> Sys \<Rightarrow> event list \<Rightarrow> Sys \<Rightarrow> bool" for rt where
  sys_refl: "sys_run rt s [] s"
| sys_snoc: "sys_run rt s evs s1 \<Longrightarrow> sys_step rt s1 a ev s2 \<Longrightarrow> sys_run rt s (evs @ ev) s2"

text \<open>The server that has just started, with what is in its log.\<close>

definition sys_start :: "bool \<Rightarrow> World \<Rightarrow> Sys" where
  "sys_start aof w = \<lparr>world = w, conns = fmempty, persists = aof\<rparr>"

subsection \<open>The invariant\<close>

definition call_ok :: "Hub \<Rightarrow> call \<Rightarrow> bool" where
  "call_ok h call = (case call of CallSub i _ _ \<Rightarrow> i |\<in>| fmdom (subscribers h) | _ \<Rightarrow> True)"

text \<open>
  The entry of the registry that is running, under the name it will be logged with; of the
  commands that take several steps only \<open>PUBLISH\<close> is logged.
\<close>

definition spec_call :: "Spec \<Rightarrow> call \<Rightarrow> bool" where
  "spec_call sp call =
     (case call of
        CallSub _ _ _ \<Rightarrow> \<not> SWrite sp
      | CallUnsub _ _ _ \<Rightarrow> \<not> SWrite sp
      | CallPub _ _ _ \<Rightarrow> SHandler sp = ConnHandler publish_cmd
      | CallRet _ \<Rightarrow> True)"

definition entry_ok :: "Runtime \<Rightarrow> Spec \<Rightarrow> string \<Rightarrow> Value list \<Rightarrow> call \<Rightarrow> bool" where
  "entry_ok rt sp u args call \<longleftrightarrow>
     fmlookup NewRegistry u = Some sp \<and> ToUpper rt u = u \<and> CheckArity sp (length args) \<and> spec_call sp call"

definition pc_ok :: "Runtime \<Rightarrow> Hub \<Rightarrow> Context \<Rightarrow> pc \<Rightarrow> bool" where
  "pc_ok rt h ctx p =
     (case p of
        Running sp u args call \<Rightarrow> call_ok h call \<and> entry_ok rt sp u args call
      | Exec sp u q _ oc \<Rightarrow>
          \<not> inTx ctx \<and> list_all (queued_ok rt) q \<and> entry_ok rt sp u [] (CallRet OK) \<and> \<not> SWrite sp \<and>
          (case oc of
             None \<Rightarrow> True
           | Some (sp', u', args, call) \<Rightarrow> call_ok h call \<and> entry_ok rt sp' u' args call)
      | _ \<Rightarrow> True)"

definition conn_ok :: "Runtime \<Rightarrow> Hub \<Rightarrow> Conn \<Rightarrow> bool" where
  "conn_ok rt h c \<longleftrightarrow>
     sub_alloc (cctx c) h \<and> list_all (queued_ok rt) (queue (cctx c)) \<and> (inTx (cctx c) \<or> queue (cctx c) = []) \<and>
     input_safe (cin c) \<and> pc_ok rt h (cctx c) (cpc c)"

definition world_ok :: "World \<Rightarrow> bool" where
  "world_ok w \<longleftrightarrow> wf_store (wstore w) \<and> wf_hub (whub w)"

definition sys_ok :: "Runtime \<Rightarrow> Sys \<Rightarrow> bool" where
  "sys_ok rt s \<longleftrightarrow> world_ok (world s) \<and>
     fmpred (\<lambda>_ c. conn_ok rt (whub (world s)) c \<and> OnWrite (cctx c) = persists s) (conns s)"

lemma session_ok_conn:
  "conn_ok rt (whub w) c \<Longrightarrow> world_ok w \<Longrightarrow> session_ok rt w (cctx c)"
  by (auto simp: conn_ok_def world_ok_def session_ok_def)

text \<open>No step takes an inbox away, so what a step of one connection does keeps the others right.\<close>

definition hub_grows :: "Hub \<Rightarrow> Hub \<Rightarrow> bool" where
  "hub_grows h h' \<longleftrightarrow> fmdom (subscribers h) |\<subseteq>| fmdom (subscribers h')"

lemma hub_grows_refl [simp]: "hub_grows h h"
  by (simp add: hub_grows_def)

lemma hub_grows_conn: "conn_grows ctx h ctx' h' \<Longrightarrow> hub_grows h h'"
  by (simp add: conn_grows_def hub_grows_def)

lemma call_ok_grows: "call_ok h call \<Longrightarrow> hub_grows h h' \<Longrightarrow> call_ok h' call"
  by (auto simp: call_ok_def hub_grows_def split: call.splits)

lemma conn_ok_grows:
  assumes "conn_ok rt h c" "hub_grows h h'"
  shows "conn_ok rt h' c"
proof -
  have "sub_alloc (cctx c) h'"
    using assms by (auto simp: conn_ok_def sub_alloc_def hub_grows_def split: option.splits)
  moreover have "pc_ok rt h' (cctx c) (cpc c)"
    using assms call_ok_grows [OF _ assms(2)]
    by (auto simp: conn_ok_def pc_ok_def split: pc.splits option.splits)
  ultimately show ?thesis using assms(1) by (simp add: conn_ok_def)
qed

subsection \<open>Calls\<close>

lemma wf_deliver: "wf_hub h \<Longrightarrow> wf_hub (snd (deliver m i (n, h)))"
  by (auto simp: wf_hub_def deliver_def inboxSize_def subscriber_sel)

lemma call_step_ok:
  assumes "wf_hub h" "call_ok h call" "call_step call h = (call', h')"
  shows "wf_hub h'" "call_ok h' call'" "hub_grows h h'"
proof -
  have "wf_hub h' \<and> call_ok h' call' \<and> hub_grows h h'"
    using assms wf_deliver [OF assms(1)]
    by (cases "(call, h)" rule: call_step.cases)
      (auto simp: call_ok_def hub_grows_def case_prod_beta Let_def wf_Subscribe wf_Unsubscribe deliver_def)
  then show "wf_hub h'" "call_ok h' call'" "hub_grows h h'" by blast+
qed

lemma registry_hub_specs:
  assumes "fmlookup NewRegistry u = Some sp"
  shows "u = ''PUBLISH'' \<Longrightarrow> CheckArity sp = argc_is 2 \<and> SHandler sp = ConnHandler publish_cmd"
    and "u = ''SUBSCRIBE'' \<or> u = ''UNSUBSCRIBE'' \<Longrightarrow> \<not> SWrite sp"
    and "SHandler sp = ExecHandler \<Longrightarrow> CheckArity sp = argc_is 0"
proof -
  have "list_all (\<lambda>s. (Name s = ''PUBLISH'' \<longrightarrow> CheckArity s = argc_is 2 \<and> SHandler s = ConnHandler publish_cmd) \<and>
      (Name s = ''SUBSCRIBE'' \<or> Name s = ''UNSUBSCRIBE'' \<longrightarrow> \<not> SWrite s) \<and>
      (SHandler s = ExecHandler \<longrightarrow> CheckArity s = argc_is 0)) all_specs"
    by (simp add: all_specs_def command_lists)
  then show "u = ''PUBLISH'' \<Longrightarrow> CheckArity sp = argc_is 2 \<and> SHandler sp = ConnHandler publish_cmd"
    "u = ''SUBSCRIBE'' \<or> u = ''UNSUBSCRIBE'' \<Longrightarrow> \<not> SWrite sp"
    "SHandler sp = ExecHandler \<Longrightarrow> CheckArity sp = argc_is 0"
    using NewRegistry_lookup [OF assms] by (auto simp: list_all_iff)
qed

text \<open>Outside the three commands of the hub, a call is the handler in one step.\<close>

lemma begin_call_atomic:
  assumes "SHandler sp \<noteq> ExecHandler"
    and "(\<exists>h. SHandler sp = StoreHandler h) \<or> Name sp \<notin> {''SUBSCRIBE'', ''UNSUBSCRIBE'', ''PUBLISH''}"
  shows "begin_call env sp w ctx args =
    map_option (\<lambda>(v, w', ctx'). (CallRet v, w', ctx')) (run_handler disp (\<lambda>_. env) (SHandler sp) w ctx args)"
  using assms
  by (cases "SHandler sp") (auto simp: begin_call_def run_handler_def option.map_comp comp_def case_prod_unfold)

definition call_effect :: "Spec \<Rightarrow> World \<Rightarrow> call \<Rightarrow> World \<Rightarrow> bool" where
  "call_effect sp w call w' \<longleftrightarrow>
     waof w' = waof w \<and>
     (wstore w' = wstore w \<or> SWrite sp \<and> (\<exists>v. call = CallRet v \<and> vType v \<noteq> TypeError))"

lemma begin_call_ok:
  assumes sp: "fmlookup NewRegistry u = Some sp" "CheckArity sp (length args)" "SHandler sp \<noteq> ExecHandler"
    and ok: "world_ok w" "sub_alloc ctx (whub w)"
  shows "\<exists>call w' ctx'. begin_call env sp w ctx args = Some (call, w', ctx') \<and>
    world_ok w' \<and> sub_alloc ctx' (whub w') \<and> call_ok (whub w') call \<and> spec_call sp call \<and>
    conn_grows ctx (whub w) ctx' (whub w') \<and>
    (same_tx ctx ctx' \<or> u \<in> set commandsBypassingQueue \<and> queue ctx' = []) \<and> call_effect sp w call w'"
proof -
  have name: "Name sp = u" using NewRegistry_lookup [OF sp(1)] by simp
  show ?thesis
  proof (cases "(\<exists>h. SHandler sp = StoreHandler h) \<or> Name sp \<notin> {''SUBSCRIBE'', ''UNSUBSCRIBE'', ''PUBLISH''}")
    case True
    let ?run = "run_handler (Dispatch 0) (\<lambda>_. env) (SHandler sp) w ctx args"
    obtain v w' ctx' where r: "?run = Some (v, w', ctx')" "wf_store (wstore w')" "wf_hub (whub w')"
        "sub_alloc ctx' (whub w')" "conn_grows ctx (whub w) ctx' (whub w')"
        "same_tx ctx ctx' \<or> u \<in> set commandsBypassingQueue \<and> queue ctx' = []"
        "vType v = TypeError \<or> \<not> SWrite sp \<longrightarrow> wstore w' = wstore w"
      using registry.run_store_or_conn [OF sp, of w ctx "Dispatch 0" "\<lambda>_. env"] ok by (auto simp: world_ok_def)
    have "waof w' = waof w" using r(1) sp(3) by (auto simp: run_handler_def split: Handler.splits)
    with r have "world_ok w' \<and> call_ok (whub w') (CallRet v) \<and> spec_call sp (CallRet v) \<and>
        call_effect sp w (CallRet v) w'"
      by (auto simp: world_ok_def call_ok_def spec_call_def call_effect_def)
    with r(4-6) show ?thesis by (simp add: begin_call_atomic [OF sp(3) True, of _ _ _ _ "Dispatch 0"] r(1))
  next
    case False
    then obtain h where h: "SHandler sp = ConnHandler h" using sp(3) by (cases "SHandler sp") auto
    obtain i ctx' h' where c: "ctx_Subscriber ctx (whub w) = (i, ctx', h')" by (metis prod_cases3)
    have hub: "wf_hub (whub w)" using ok(1) by (simp add: world_ok_def)
    note c' = ctx_Subscriber_ok [OF hub ok(2) c]
    from False name consider "u = ''SUBSCRIBE''" | "u = ''UNSUBSCRIBE''" | "u = ''PUBLISH''" by auto
    then show ?thesis
    proof cases
      case 3
      with registry_hub_specs(1) [OF sp(1)] sp(2) have "length args = 2" "SHandler sp = ConnHandler publish_cmd"
        by (simp_all add: argc_is_def)
      with 3 name ok show ?thesis
        by (simp add: begin_call_def call_ok_def spec_call_def call_effect_def same_tx_def)
    qed (use h name ok c c' registry_hub_specs(2) [OF sp(1)] in \<open>auto simp: begin_call_def world_ok_def
          sub_alloc_def call_ok_def spec_call_def call_effect_def Let_def\<close>)
  qed
qed

subsection \<open>Steps of a connection\<close>

lemma truncate_eqs:
  assumes "Runtime.truncate env = rt"
  shows "ToUpper env = ToUpper rt" "validate env = validate rt" "same_runtime rt (\<lambda>_. env)"
  using truncate_runtime [of env] assms by (simp_all add: same_runtime_def)

definition begun_ok :: "Runtime \<Rightarrow> Hub \<Rightarrow> Context \<Rightarrow> begun \<Rightarrow> bool" where
  "begun_ok rt h ctx b =
     (case b of
        Replied v \<Rightarrow> True
      | Started sp u args call \<Rightarrow> call_ok h call \<and> entry_ok rt sp u args call
      | StartExec sp u q \<Rightarrow>
          \<not> inTx ctx \<and> list_all (queued_ok rt) q \<and> entry_ok rt sp u [] (CallRet OK) \<and> \<not> SWrite sp)"

text \<open>What a dispatch has done of a command when it comes to its first wait.\<close>

definition begun_effect :: "World \<Rightarrow> begun \<Rightarrow> World \<Rightarrow> bool" where
  "begun_effect w b w' =
     (case b of
        Started sp u args call \<Rightarrow> call_effect sp w call w'
      | _ \<Rightarrow> wstore w' = wstore w \<and> waof w' = waof w)"

text \<open>What \<open>dispatch_begin\<close> keeps, and that a plain command neither enters nor executes a transaction.\<close>

definition dispatch_begin_keeps ::
    "Runtime \<Rightarrow> World \<Rightarrow> Context \<Rightarrow> string \<Rightarrow> begun \<times> World \<times> Context \<Rightarrow> bool" where
  "dispatch_begin_keeps rt w ctx u x =
     (case x of (b, w', ctx') \<Rightarrow>
        session_ok rt w' ctx' \<and> conn_grows ctx (whub w) ctx' (whub w') \<and> begun_ok rt (whub w') ctx' b \<and>
        begun_effect w b w' \<and>
        (\<not> inTx ctx \<and> u \<notin> set commandsBypassingQueue \<longrightarrow>
           \<not> inTx ctx' \<and> (\<forall>sp u q. b \<noteq> StartExec sp u q)))"

lemma dispatch_begin_exec:
  assumes env: "Runtime.truncate env = rt" and ok: "session_ok rt w ctx"
    and u: "ToUpper rt name = u" "ToUpper rt u = u"
    and v: "validate rt u args = Inr sp" "SHandler sp = ExecHandler"
  shows "\<exists>x. dispatch_begin env w ctx name args = Some x \<and> dispatch_begin_keeps rt w ctx u x"
proof -
  have sp: "fmlookup NewRegistry u = Some sp" "CheckArity sp (length args)"
    using v(1) by (simp_all add: validate_Inr u)
  then have tx: "u \<in> set commandsBypassingQueue" using registry.table_not_exec v(2) by blast
  have "CheckArity sp 0" "args = []"
    using registry_hub_specs(3) [OF sp(1) v(2)] sp(2) by (simp_all add: argc_is_def)
  then show ?thesis
    using v tx ok sp u registry_tx_no_write [OF sp(1) tx]
    by (auto simp: dispatch_begin_def truncate_eqs [OF env] dispatch_begin_keeps_def begun_ok_def begun_effect_def
        call_ok_def entry_ok_def spec_call_def call_effect_def session_ok_def sub_alloc_def conn_grows_def Let_def)
qed

lemma dispatch_begin_call:
  assumes env: "Runtime.truncate env = rt" and ok: "session_ok rt w ctx"
    and u: "ToUpper rt name = u" "ToUpper rt u = u" "\<not> (inTx ctx \<and> u \<notin> set commandsBypassingQueue)"
    and v: "validate rt u args = Inr sp" "SHandler sp \<noteq> ExecHandler"
  shows "\<exists>x. dispatch_begin env w ctx name args = Some x \<and> dispatch_begin_keeps rt w ctx u x"
proof -
  have sp: "fmlookup NewRegistry u = Some sp" "CheckArity sp (length args)"
    using v(1) by (simp_all add: validate_Inr u)
  have start: "world_ok w" "sub_alloc ctx (whub w)"
    using ok by (simp_all add: session_ok_def world_ok_def)
  obtain call w' ctx' where b: "begin_call env sp w ctx args = Some (call, w', ctx')"
      "world_ok w'" "sub_alloc ctx' (whub w')" "call_ok (whub w') call \<and> spec_call sp call"
      "conn_grows ctx (whub w) ctx' (whub w')"
      "same_tx ctx ctx' \<or> u \<in> set commandsBypassingQueue \<and> queue ctx' = []" "call_effect sp w call w'"
    using begin_call_ok [OF sp v(2) start, of env] by blast
  have "dispatch_begin env w ctx name args = Some (Started sp u args call, w', ctx')"
    using u v b(1) by (auto simp: dispatch_begin_def truncate_eqs [OF env] split: Handler.split)
  moreover have "session_ok rt w' ctx'"
    using ok b(2,3,6) by (auto simp: session_ok_def world_ok_def same_tx_def)
  ultimately show ?thesis using b(4-7) sp u
    by (auto simp: dispatch_begin_keeps_def begun_ok_def entry_ok_def begun_effect_def same_tx_def)
qed

lemma dispatch_begin_ok:
  assumes env: "Runtime.truncate env = rt" and up: "upper_idem rt" and ok: "session_ok rt w ctx"
  shows "\<exists>b w' ctx'. dispatch_begin env w ctx name args = Some (b, w', ctx') \<and>
    session_ok rt w' ctx' \<and> conn_grows ctx (whub w) ctx' (whub w') \<and> begun_ok rt (whub w') ctx' b \<and>
    begun_effect w b w' \<and>
    (\<not> inTx ctx \<and> ToUpper rt name \<notin> set commandsBypassingQueue \<longrightarrow>
       \<not> inTx ctx' \<and> (\<forall>sp u q. b \<noteq> StartExec sp u q))"
proof -
  define u where "u = ToUpper rt name"
  have u: "ToUpper rt u = u" using up by (simp add: u_def upper_idem_def)
  note eqs = dispatch_begin_def truncate_eqs [OF env] u_def [symmetric]
  have "\<exists>x. dispatch_begin env w ctx name args = Some x \<and> dispatch_begin_keeps rt w ctx u x"
  proof (cases "inTx ctx \<and> u \<notin> set commandsBypassingQueue")
    case True
    obtain v ctx' where q: "queueCommand env u args ctx = (v, ctx')" by fastforce
    have "session_ok rt w ctx' \<and> conn_grows ctx (whub w) ctx' (whub w)"
      by (rule queueCommand_ok [OF ok _ u _ _ q]) (use True in \<open>simp_all add: truncate_eqs [OF env]\<close>)
    with True q show ?thesis by (simp add: eqs dispatch_begin_keeps_def begun_ok_def begun_effect_def)
  next
    case out: False
    show ?thesis
    proof (cases "validate rt u args")
      case (Inl v)
      with out ok show ?thesis by (auto simp: eqs dispatch_begin_keeps_def begun_ok_def begun_effect_def)
    next
      case (Inr sp)
      with dispatch_begin_exec [OF env ok u_def [symmetric] u]
        dispatch_begin_call [OF env ok u_def [symmetric] u out]
      show ?thesis by blast
    qed
  qed
  then show ?thesis by (auto simp: dispatch_begin_keeps_def u_def)
qed

lemma begin_request_ok:
  assumes env: "Runtime.truncate env = rt" and up: "upper_idem rt" and ok: "session_ok rt w ctx"
  shows "\<exists>p w' ctx'. begin_request env w ctx req = Some (p, w', ctx') \<and>
    session_ok rt w' ctx' \<and> conn_grows ctx (whub w) ctx' (whub w') \<and> pc_ok rt (whub w') ctx' p \<and>
    waof w' = waof w \<and>
    (wstore w' = wstore w \<or>
     (\<exists>sp u args v. p = Running sp u args (CallRet v) \<and> SWrite sp \<and> vType v \<noteq> TypeError))"
proof (cases "vType req \<noteq> TypeArray \<or> length (vElems req) = 0 \<or>
    InSubscriberMode ctx (whub w) \<and> ToUpper env (vStr (hd (vElems req))) \<notin> set subscriberModeAllowed")
  case True
  with ok show ?thesis by (auto simp: begin_request_def pc_ok_def)
next
  case False
  obtain b w' ctx' where d: "dispatch_begin env w ctx (ToUpper env (vStr (hd (vElems req)))) (tl (vElems req)) =
      Some (b, w', ctx')" "session_ok rt w' ctx'" "conn_grows ctx (whub w) ctx' (whub w')"
      "begun_ok rt (whub w') ctx' b" "begun_effect w b w'"
    using dispatch_begin_ok [OF env up ok] by blast
  with False show ?thesis
    by (cases b) (auto simp: begin_request_def pc_ok_def begun_ok_def begun_effect_def call_effect_def)
qed

text \<open>What one step of a connection promises.\<close>

definition conn_step_spec :: "Runtime \<Rightarrow> World \<Rightarrow> Conn \<Rightarrow> World \<Rightarrow> Conn \<Rightarrow> bool" where
  "conn_step_spec rt w c w' c' \<longleftrightarrow>
     world_ok w' \<and> conn_ok rt (whub w') c' \<and> hub_grows (whub w) (whub w') \<and>
     OnWrite (cctx c') = OnWrite (cctx c) \<and> waof w' = fold aof_Append (pending c) (waof w) \<and>
     (wstore w' = wstore w \<or> \<not> OnWrite (cctx c) \<or> pending c' \<noteq> [])"

lemma waof_log_write:
  "waof (log_write sp v u args ctx w) = fold aof_Append (if log_due sp v ctx then [Bulk u # args] else []) (waof w)"
  by (simp add: log_write_def log_due_def)

lemma world_ok_log_write [simp]: "world_ok (log_write sp v u args ctx w) = world_ok w"
  by (simp add: world_ok_def)

lemma conn_ok_pc:
  "conn_ok rt h c \<Longrightarrow> pc_ok rt h (cctx c) p \<Longrightarrow> conn_ok rt h (c\<lparr>cpc := p\<rparr>)"
  "conn_ok rt h (c\<lparr>cpc := p, cout := x\<rparr>) = conn_ok rt h (c\<lparr>cpc := p\<rparr>)"
  by (auto simp: conn_ok_def)

lemma pc_ok_idle [simp]:
  "pc_ok rt h ctx Ready" "pc_ok rt h ctx (Reply v b)" "pc_ok rt h ctx (Writing v b)" "pc_ok rt h ctx (Closing chs)" "pc_ok rt h ctx Done"
  "pc_ok rt h ctx (begin_close env w ctx')"
  by (simp_all add: pc_ok_def begin_close_def)

lemma spec_call_step: "spec_call sp call \<Longrightarrow> call_step call h = (call', h') \<Longrightarrow> spec_call sp call'"
  by (cases "(call, h)" rule: call_step.cases) (auto simp: spec_call_def Let_def split: prod.splits)

lemma step_ready:
  assumes env: "Runtime.truncate env = rt" and up: "upper_idem rt"
    and ok: "conn_ok rt (whub w) c" "world_ok w" and pc: "cpc c = Ready"
  shows "\<exists>w' c'. conn_step env wok w c = Some (w', c') \<and> conn_step_spec rt w c w' c'"
proof (cases "Read (cin c)")
  case (Inl e)
  moreover have "e \<noteq> MakeslicePanic"
    using ok(1) Inl by (simp add: conn_ok_def input_safe.simps [of "cin c"])
  ultimately show ?thesis
    using ok pc conn_ok_pc(1) [OF ok(1) pc_ok_idle(6)]
    by (simp add: conn_step_def conn_step_spec_def pending_def)
next
  case (Inr x)
  obtain req rest where x: "x = (req, rest)" by fastforce
  have safe: "input_safe rest"
    using ok(1) Inr x by (simp add: conn_ok_def input_safe.simps [of "cin c"])
  obtain p w' ctx' where b: "begin_request env w (cctx c) req = Some (p, w', ctx')" "session_ok rt w' ctx'"
      "conn_grows (cctx c) (whub w) ctx' (whub w')" "pc_ok rt (whub w') ctx' p" "waof w' = waof w"
      "wstore w' = wstore w \<or>
       (\<exists>sp u args v. p = Running sp u args (CallRet v) \<and> SWrite sp \<and> vType v \<noteq> TypeError)"
    using begin_request_ok [OF env up session_ok_conn [OF ok]] by blast
  have "conn_step env wok w c = Some (w', c\<lparr>cpc := p, cctx := ctx', cin := rest\<rparr>)"
    using pc Inr x b(1) by (simp add: conn_step_def)
  moreover have "conn_step_spec rt w c w' (c\<lparr>cpc := p, cctx := ctx', cin := rest\<rparr>)"
    using b(2-6) safe pc hub_grows_conn [OF b(3)]
    by (auto simp: conn_step_spec_def session_ok_def world_ok_def conn_ok_def conn_grows_def pending_def log_due_def)
  ultimately show ?thesis by blast
qed

lemma step_running:
  assumes ok: "conn_ok rt (whub w) c" "world_ok w" and pc: "cpc c = Running sp u args call"
  shows "\<exists>w' c'. conn_step env wok w c = Some (w', c') \<and> conn_step_spec rt w c w' c'"
proof (cases "\<exists>v. call = CallRet v")
  case True
  with ok pc show ?thesis
    by (auto simp: conn_step_def conn_step_spec_def conn_ok_pc waof_log_write pending_def)
next
  case False
  obtain call' h where s: "call_step call (whub w) = (call', h)" by fastforce
  have call: "call_ok (whub w) call" "entry_ok rt sp u args call"
    using ok(1) pc by (simp_all add: conn_ok_def pc_ok_def)
  have hub: "wf_hub (whub w)" using ok(2) by (simp add: world_ok_def)
  note s' = call_step_ok [OF hub call(1) s]
  have "conn_step env wok w c = Some (w\<lparr>whub := h\<rparr>, c\<lparr>cpc := Running sp u args call'\<rparr>)"
    using False pc s by (cases call) (simp_all add: conn_step_def)
  moreover have "conn_ok rt h (c\<lparr>cpc := Running sp u args call'\<rparr>)"
    by (rule conn_ok_pc(1) [OF conn_ok_grows [OF ok(1) s'(3)]])
      (use call s' spec_call_step [OF _ s, of sp] in \<open>simp add: pc_ok_def entry_ok_def\<close>)
  ultimately show ?thesis
    using False pc s' ok(2) by (cases call) (simp_all add: conn_step_spec_def world_ok_def pending_def)
qed

lemma step_exec_call:
  assumes ok: "conn_ok rt (whub w) c" "world_ok w" and pc: "cpc c = Exec sp u q rs (Some (sp', u', args, call))"
  shows "\<exists>w' c'. conn_step env wok w c = Some (w', c') \<and> conn_step_spec rt w c w' c'"
proof (cases "\<exists>v. call = CallRet v")
  case True
  with ok pc show ?thesis
    by (auto simp: conn_step_def conn_step_spec_def conn_ok_pc waof_log_write pending_def conn_ok_def pc_ok_def)
next
  case False
  obtain call' h where s: "call_step call (whub w) = (call', h)" by fastforce
  have call: "call_ok (whub w) call" "entry_ok rt sp' u' args call"
    using ok(1) pc by (simp_all add: conn_ok_def pc_ok_def)
  have hub: "wf_hub (whub w)" using ok(2) by (simp add: world_ok_def)
  note s' = call_step_ok [OF hub call(1) s]
  have "conn_step env wok w c =
      Some (w\<lparr>whub := h\<rparr>, c\<lparr>cpc := Exec sp u q rs (Some (sp', u', args, call'))\<rparr>)"
    using False pc s by (cases call) (simp_all add: conn_step_def)
  moreover have "conn_ok rt h (c\<lparr>cpc := Exec sp u q rs (Some (sp', u', args, call'))\<rparr>)"
    using conn_ok_grows [OF ok(1) s'(3)] call s' spec_call_step [OF _ s, of sp'] pc
    by (auto simp: conn_ok_def pc_ok_def entry_ok_def)
  ultimately show ?thesis
    using False pc s' ok(2) by (cases call) (simp_all add: conn_step_spec_def world_ok_def pending_def)
qed

lemma step_exec_next:
  assumes env: "Runtime.truncate env = rt" and up: "upper_idem rt"
    and ok: "conn_ok rt (whub w) c" "world_ok w" and pc: "cpc c = Exec sp u (qc # q) rs None"
  shows "\<exists>w' c'. conn_step env wok w c = Some (w', c') \<and> conn_step_spec rt w c w' c'"
proof -
  have ctx: "\<not> inTx (cctx c)" "queued_ok rt qc" "list_all (queued_ok rt) q" "entry_ok rt sp u [] (CallRet OK)" "\<not> SWrite sp"
    using ok(1) pc by (simp_all add: conn_ok_def pc_ok_def)
  then have bypass: "ToUpper rt (qName qc) \<notin> set commandsBypassingQueue" by (simp add: queued_ok_def)
  obtain b w' ctx' where d: "dispatch_begin env w (cctx c) (qName qc) (qArgs qc) = Some (b, w', ctx')"
      "session_ok rt w' ctx'" "conn_grows (cctx c) (whub w) ctx' (whub w')" "begun_ok rt (whub w') ctx' b"
      "begun_effect w b w'" "\<not> inTx ctx'" "\<forall>sp u q. b \<noteq> StartExec sp u q"
    using dispatch_begin_ok [OF env up session_ok_conn [OF ok], of "qName qc" "qArgs qc"] ctx(1) bypass by blast
  have safe: "input_safe (cin c)" using ok(1) by (simp add: conn_ok_def)
  show ?thesis
    using d ctx pc safe hub_grows_conn [OF d(3)]
    by (cases b) (auto simp: conn_step_def conn_step_spec_def conn_ok_def pc_ok_def session_ok_def world_ok_def
        begun_ok_def begun_effect_def call_effect_def conn_grows_def pending_def log_due_def)
qed

lemma step_closing:
  assumes ok: "conn_ok rt (whub w) c" "world_ok w" and pc: "cpc c = Closing chs"
  shows "\<exists>w' c'. conn_step env wok w c = Some (w', c') \<and> conn_step_spec rt w c w' c'"
proof (cases chs)
  case Nil
  with ok pc show ?thesis by (simp add: conn_step_def conn_step_spec_def conn_ok_pc pending_def)
next
  case (Cons ch chs')
  define h where "h = (case sub (cctx c) of None \<Rightarrow> whub w | Some i \<Rightarrow> snd (Unsubscribe i ch (whub w)))"
  have h: "wf_hub h" "hub_grows (whub w) h"
    using ok(2) wf_Unsubscribe [of "whub w" _ ch]
    by (auto simp: h_def world_ok_def hub_grows_def split: option.split)
  with Cons pc ok conn_ok_grows [OF ok(1) h(2)] show ?thesis
    by (simp add: conn_step_def conn_step_spec_def conn_ok_pc world_ok_def pending_def flip: h_def)
qed

lemma conn_step_ok:
  assumes env: "Runtime.truncate env = rt" and up: "upper_idem rt"
    and ok: "conn_ok rt (whub w) c" "world_ok w"
  shows "\<exists>w' c'. conn_step env wok w c = Some (w', c') \<and> conn_step_spec rt w c w' c'"
proof (cases "cpc c")
  case (Exec sp u q rs oc)
  show ?thesis
  proof (cases oc)
    case None
    show ?thesis
    proof (cases q)
      case Nil
      with Exec None ok show ?thesis
        by (auto simp: conn_step_def conn_step_spec_def conn_ok_def pc_ok_def pending_def call_ok_def
            entry_ok_def spec_call_def)
    qed (use step_exec_next [OF assms] Exec None in simp)
  next
    case (Some x)
    with step_exec_call [OF ok] Exec show ?thesis by (cases x) auto
  qed
next
  case (Reply v b)
  with ok show ?thesis by (simp add: conn_step_def conn_step_spec_def conn_ok_pc pending_def)
next
  case (Writing v b)
  with ok show ?thesis
    by (auto simp: conn_step_def conn_step_spec_def conn_ok_pc pending_def begin_close_def)
next
  case Done
  with ok show ?thesis by (simp add: conn_step_def conn_step_spec_def pending_def)
qed (use step_ready [OF assms] step_running [OF ok] step_closing [OF ok] in auto)

subsection \<open>Steps of the system\<close>

inductive_cases sys_stepE: "sys_step rt s a ev s'"

text \<open>A step that changes one connection and lets the hub grow keeps the whole system right.\<close>

lemma sys_ok_update:
  assumes "sys_ok rt s" "world_ok w" "hub_grows (whub (world s)) (whub w)"
    and "conn_ok rt (whub w) c" "OnWrite (cctx c) = persists s"
  shows "sys_ok rt (s\<lparr>world := w, conns := fmupd i c (conns s)\<rparr>)"
  using assms by (auto simp: sys_ok_def intro: conn_ok_grows)

lemma wf_receive:
  assumes "wf_hub h" "receive i h = Some (m, h')"
  shows "wf_hub h'" "fmdom (subscribers h') = fmdom (subscribers h)"
proof -
  obtain ms where ms: "inbox h i = m # ms" "h' = upd_subscriber i (\<lambda>s. s\<lparr>messages := ms\<rparr>) h"
    using assms(2) by (auto simp: receive_def split: list.splits)
  have ch: "sub_channels h' j = sub_channels h j" for j
    using ms(2) by (simp add: subscriber_sel)
  have le: "length (inbox h' j) \<le> inboxSize" for j
    using ms assms(1) by (cases "j = i") (auto simp: wf_hub_def dest: spec [of _ i])
  show "wf_hub h'" using assms(1) ch le ms(2) unfolding wf_hub_def by simp
  show "fmdom (subscribers h') = fmdom (subscribers h)" using ms(2) by simp
qed

lemma forward_step_ok:
  assumes "conn_ok rt (whub w) c" "world_ok w" "forward_step wok w c = Some (w', c')"
  shows "world_ok w'" "conn_ok rt (whub w') c'" "hub_grows (whub w) (whub w')" "cctx c' = cctx c"
    "cpc c' = cpc c" "wstore w' = wstore w" "waof w' = waof w"
proof -
  have keep: "world_ok w' \<and> hub_grows (whub w) (whub w') \<and> wstore w' = wstore w \<and> waof w' = waof w \<and>
      cctx c' = cctx c \<and> cpc c' = cpc c \<and> cin c' = cin c"
  proof (cases "cfwd c")
    case FwdSelect
    with assms(3) obtain i m h where f: "receive i (whub w) = Some (m, h)" "w' = w\<lparr>whub := h\<rparr>"
        "c' = c\<lparr>cfwd := FwdReply (message_frame m)\<rparr>"
      by (auto simp: forward_step_def forwardPubSub_def split: option.splits)
    with wf_receive [OF _ f(1)] assms(2) show ?thesis by (simp add: world_ok_def hub_grows_def)
  qed (use assms(2,3) in \<open>auto simp: forward_step_def split: if_splits\<close>)
  then show "world_ok w'" "hub_grows (whub w) (whub w')" "wstore w' = wstore w" "waof w' = waof w"
    "cctx c' = cctx c" "cpc c' = cpc c" by simp_all
  with keep conn_ok_grows [OF assms(1)] show "conn_ok rt (whub w') c'" by (simp add: conn_ok_def)
qed

lemma sys_step_ok:
  assumes up: "upper_idem rt" and ok: "sys_ok rt s" and step: "sys_step rt s a ev s'"
  shows "sys_ok rt s' \<and> persists s' = persists s"
  using step
proof cases
  case (accept i w ctx input)
  have w: "wf_store (wstore (world s))" "wf_hub (whub (world s))" using ok by (simp_all add: sys_ok_def world_ok_def)
  note open_ok = conn_open_ok(1) [OF w accept(5), of rt] conn_open_ok(2-) [OF w accept(5)]
  have "hub_grows (whub (world s)) (whub w)"
    using conn_open_fresh [OF w(2) accept(5)] NewSubscriber_simps(4,5) [of "whub (world s)"]
    by (cases "NewSubscriber (whub (world s))") (auto simp: hub_grows_def)
  then show ?thesis
    using accept open_ok sys_ok_update [OF ok]
    by (auto simp: session_ok_def world_ok_def conn_ok_def pc_ok_def)
next
  case (request i c env wok w c')
  have c: "conn_ok rt (whub (world s)) c" "world_ok (world s)" "OnWrite (cctx c) = persists s"
    using ok request(4) by (auto simp: sys_ok_def)
  from conn_step_ok [OF request(6) up c(1,2), of wok] request(7) have "conn_step_spec rt (world s) c w c'" by simp
  then show ?thesis using request(3) sys_ok_update [OF ok] c(3) by (simp add: conn_step_spec_def)
next
  case (forward i c wok w c')
  have c: "conn_ok rt (whub (world s)) c" "world_ok (world s)" "OnWrite (cctx c) = persists s"
    using ok forward(4) by (auto simp: sys_ok_def)
  from forward_step_ok [OF c(1,2) forward(5)] c(3) show ?thesis
    using forward(3) sys_ok_update [OF ok] by simp
next
  case (forward_end i c c')
  have "conn_ok rt (whub (world s)) c" "OnWrite (cctx c) = persists s" using ok forward_end(4) by (auto simp: sys_ok_def)
  with forward_end ok show ?thesis
    by (auto simp: forward_stop_def sys_ok_def conn_ok_def split: if_splits)
next
  case (sweep now)
  with ok show ?thesis by (auto simp: sys_ok_def world_ok_def wf_intros)
qed

lemma sys_run_cases:
  assumes "sys_run rt s evs s'" "P [] s"
    and "\<And>evs l s1 s2. sys_run rt s evs s1 \<Longrightarrow> P evs s1 \<Longrightarrow> sys_step rt s1 (fst l) (snd l) s2 \<Longrightarrow> P (evs @ snd l) s2"
  shows "P evs s'"
  using assms
proof (induction rule: sys_run.induct)
  case (sys_snoc s evs s1 a ev s2)
  from sys_snoc.prems(2) [of evs s1 "(a, ev)" s2] sys_snoc.hyps sys_snoc.IH [OF sys_snoc.prems] show ?case by simp
qed

interpretation sys: step_system "\<lambda>s l s'. sys_step rt s (fst l) (snd l) s'" "sys_run rt" "[]" "\<lambda>evs l. evs @ snd l"
  "\<lambda>s. upper_idem rt \<and> sys_ok rt s" for rt
proof
  show "upper_idem rt \<and> sys_ok rt s'" if "sys_step rt s (fst l) (snd l) s'" "upper_idem rt \<and> sys_ok rt s" for s l s'
    using sys_step_ok that by blast
qed (rule sys_run_cases)

lemma sys_run_ok:
  assumes "sys_run rt s evs s'" "upper_idem rt" "sys_ok rt s"
  shows "sys_ok rt s' \<and> persists s' = persists s"
proof
  show "sys_ok rt s'" using sys.run_ok [OF assms(1)] assms(2,3) by simp
  show "persists s' = persists s"
    by (rule sys.run_keeps [OF assms(1)]) (use assms(2,3) sys_step_ok in blast)+
qed

lemma sys_start_ok: "world_ok w \<Longrightarrow> sys_ok rt (sys_start aof w)"
  by (simp add: sys_ok_def sys_start_def)

end
