(* ===== verification/Interleaving.thy ===== *)
theory Interleaving
  imports Concurrency
begin

section \<open>What interleaving can and cannot do\<close>

text \<open>
  Consequences of the step relation of the server. Under every interleaving the store is
  the one that the committed write commands give one after the other in the order of
  their critical sections; the log holds the commands of each connection in the order in
  which the connection committed them; every request is answered if its goroutine keeps
  being scheduled. What interleaving does break is shown in \<open>Races\<close>: the order of the log
  among different connections, and the isolation of a transaction.
\<close>

subsection \<open>The log\<close>

definition logs :: "event list \<Rightarrow> Value list list" where
  "logs evs = concat (map (\<lambda>e. case e of Logged _ c \<Rightarrow> [c] | Committed _ _ \<Rightarrow> []) evs)"

definition commits :: "event list \<Rightarrow> Value list list" where
  "commits evs = concat (map (\<lambda>e. case e of Logged _ _ \<Rightarrow> [] | Committed _ c \<Rightarrow> [c]) evs)"

definition by_conn :: "nat \<Rightarrow> event list \<Rightarrow> event list" where
  "by_conn i evs = filter (\<lambda>e. case e of Logged j _ \<Rightarrow> j = i | Committed j _ \<Rightarrow> j = i) evs"

definition sys_pending :: "Sys \<Rightarrow> nat \<Rightarrow> Value list list" where
  "sys_pending s i = (case fmlookup (conns s) i of None \<Rightarrow> [] | Some c \<Rightarrow> pending c)"

lemma event_lists [simp]:
  "logs [] = []" "commits [] = []" "by_conn i [] = []"
  "logs (evs @ evs') = logs evs @ logs evs'" "commits (evs @ evs') = commits evs @ commits evs'"
  "by_conn i (evs @ evs') = by_conn i evs @ by_conn i evs'"
  "logs (map (Logged i) cs) = cs" "logs (map (Committed i) cs) = []"
  "commits (map (Logged i) cs) = []" "commits (map (Committed i) cs) = cs"
  by (simp_all add: logs_def commits_def by_conn_def comp_def)

lemma by_conn_events [simp]:
  "by_conn i (step_events j c c') = (if i = j then step_events j c c' else [])"
  by (auto simp: by_conn_def step_events_def filter_empty_conv)

lemma events_step [simp]:
  "logs (step_events i c c') = pending c" "commits (step_events i c c') = pending c'"
  by (simp_all add: step_events_def)

lemma pending_forward: "forward_step wok w c = Some (w', c') \<Longrightarrow> pending c' = pending c \<and> waof w' = waof w"
  by (auto simp: forward_step_def pending_def split: fwd_pc.splits option.splits if_splits)

lemma pending_stop: "forward_stop c = Some c' \<Longrightarrow> pending c' = pending c"
  by (auto simp: forward_stop_def pending_def split: if_splits)

lemma sys_step_log:
  assumes up: "upper_idem rt" and ok: "sys_ok rt s" and step: "sys_step rt s a ev s'"
  shows "waof (world s') = fold aof_Append (logs ev) (waof (world s)) \<and>
    (\<forall>i. sys_pending s i @ commits (by_conn i ev) = logs (by_conn i ev) @ sys_pending s' i)"
  using step
proof cases
  case (accept i w ctx input)
  have "waof w = waof (world s)"
    using conn_open_ok(3) [OF _ _ accept(5)] ok by (simp add: sys_ok_def world_ok_def)
  with accept show ?thesis
    by (auto simp: sys_pending_def pending_def mem_fmdom_iff)
next
  case (request i c env wok w c')
  have c: "conn_ok rt (whub (world s)) c" "world_ok (world s)"
    using ok request(4) by (auto simp: sys_ok_def)
  from conn_step_ok [OF request(6) up c, of wok] request(7) have "conn_step_spec rt (world s) c w c'" by simp
  then show ?thesis using request by (simp add: conn_step_spec_def sys_pending_def)
next
  case (forward i c wok w c')
  with pending_forward [OF forward(5)] show ?thesis by (simp add: sys_pending_def)
next
  case (forward_end i c c')
  with pending_stop [OF forward_end(5)] show ?thesis by (simp add: sys_pending_def)
qed (simp add: sys_pending_def)

lemma sys_run_log:
  assumes "sys_run rt s evs s'" "upper_idem rt" "sys_ok rt s"
  shows "waof (world s') = fold aof_Append (logs evs) (waof (world s)) \<and>
    (\<forall>i. sys_pending s i @ commits (by_conn i evs) = logs (by_conn i evs) @ sys_pending s' i)"
  using assms(1) conjI [OF assms(2,3)]
proof (induction rule: sys.run_induct)
  case (ext evs l s1 s2)
  from sys_step_log [OF _ _ ext(3)] ext(2,4) show ?case by (simp flip: append_assoc) (metis append_assoc)
qed simp

subsection \<open>The store is that of the committed commands in their order\<close>

text \<open>The committed commands set no expiry time and fit the wire.\<close>

definition durable_event :: "Runtime \<Rightarrow> event \<Rightarrow> bool" where
  "durable_event rt e =
     (case e of Committed _ c \<Rightarrow> durable_cmd rt (vStr (hd c)) (tl c) | Logged _ _ \<Rightarrow> True)"

text \<open>
  A committed command took the store from \<open>s\<close> to \<open>s'\<close>, and dispatched by itself on a server
  with the store \<open>s\<close>, in the same environment, it does the same.
\<close>

definition commits_as :: "Runtime \<Rightarrow> Env \<Rightarrow> string \<Rightarrow> Value list \<Rightarrow> Store \<Rightarrow> Store \<Rightarrow> bool" where
  "commits_as rt env u args s s' \<longleftrightarrow>
     (\<exists>sp. fmlookup NewRegistry u = Some sp \<and> CheckArity sp (length args) \<and> SWrite sp \<and> ToUpper rt u = u) \<and>
     (\<forall>f. \<exists>v. Dispatch 2 (\<lambda>_. env) (restarted s f) NewContext u args = Some (v, restarted s' f, NewContext))"

lemma commit_atomic:
  assumes entry: "entry_ok rt sp u args (CallRet v)" and wr: "SWrite sp" and env: "Runtime.truncate env = rt"
    and run: "begin_call env sp w ctx args = Some (CallRet v, w', ctx')"
  shows "commits_as rt env u args (wstore w) (wstore w')"
proof -
  have sp: "fmlookup NewRegistry u = Some sp" "CheckArity sp (length args)" "ToUpper rt u = u"
    using entry by (simp_all add: entry_ok_def)
  have name: "Name sp = u" using NewRegistry_lookup [OF sp(1)] by simp
  have bypass: "u \<notin> set commandsBypassingQueue" using registry_tx_no_write [OF sp(1)] wr by blast
  have "u \<noteq> ''PUBLISH''"
  proof
    assume "u = ''PUBLISH''"
    with run name registry_hub_specs(1) [OF sp(1)] show False
      by (simp add: begin_call_def bind_eq_Some_conv)
  qed
  with registry_hub_specs(2) [OF sp(1)] wr name
  have "begin_call env sp w ctx args = map_option (\<lambda>(v, w', ctx'). (CallRet v, w', ctx'))
      (run_handler (Dispatch 0) (\<lambda>_. env) (SHandler sp) w ctx args)"
    by (intro begin_call_atomic registry.table_not_exec [OF sp(1) bypass]) auto
  with run have "run_handler (Dispatch 0) (\<lambda>_. env) (SHandler sp) w ctx args = Some (v, w', ctx')" by auto
  with redo_one [OF sp(1,2) wr sp(3) truncate_eqs(3) [OF env], of "\<lambda>_. env"] sp wr show ?thesis
    by (fastforce simp: commits_as_def)
qed

text \<open>\<open>PUBLISH\<close> is logged, and does not change the store.\<close>

lemma commit_publish:
  fixes env :: Env
  assumes entry: "entry_ok rt sp u args call" and wr: "SWrite sp" "SHandler sp = ConnHandler publish_cmd"
    and env: "Runtime.truncate env = rt"
  shows "commits_as rt env u args s s"
proof -
  have sp: "fmlookup NewRegistry u = Some sp" "CheckArity sp (length args)" "ToUpper rt u = u"
    using entry by (simp_all add: entry_ok_def)
  have bypass: "u \<notin> set commandsBypassingQueue" using registry_tx_no_write [OF sp(1)] wr by blast
  have "\<exists>v w' ctx'. run_handler (Dispatch 0) (\<lambda>_. env) (SHandler sp) (restarted New []) NewContext args = Some (v, w', ctx')"
    using registry.run_store_or_conn [OF sp(1,2) registry.table_not_exec [OF sp(1) bypass], of "restarted New []"
        NewContext "Dispatch 0" "\<lambda>_. env"]
    by (auto simp: restarted_def wf_New wf_NewHub sub_alloc_def NewContext_def)
  then obtain v w' ctx' where r: "run_handler (Dispatch 0) (\<lambda>_. env) (SHandler sp) (restarted s []) NewContext args =
      Some (v, w', ctx')" "wstore w' = s"
    using wr(2) by (auto simp: run_handler_def restarted_def)
  have "wstore (restarted s []) = s" by (simp add: restarted_def)
  with redo_one [OF sp(1,2) wr(1) sp(3) truncate_eqs(3) [OF env] _ r(1)] r(2) sp wr(1) show ?thesis
    by (fastforce simp: commits_as_def)
qed

text \<open>Without expiry times it does the same whenever it is replayed.\<close>

lemma commits_as_replays:
  assumes com: "commits_as rt env u args s s'" and env: "Runtime.truncate env = rt"
    and ttl: "no_ttl s" and dur: "durable_cmd rt u args"
  shows "replays_step rt u args s s'"
proof -
  obtain sp where sp: "fmlookup NewRegistry u = Some sp" "CheckArity sp (length args)" "SWrite sp" "ToUpper rt u = u"
    using com by (auto simp: commits_as_def)
  have bypass: "u \<notin> set commandsBypassingQueue" using registry_tx_no_write sp(1,3) by blast
  obtain v where "Dispatch 2 (\<lambda>_. env) (restarted s []) NewContext u args = Some (v, restarted s' [], NewContext)"
    using com by (auto simp: commits_as_def)
  then obtain w1 c1 where r: "run_handler (Dispatch 1) (\<lambda>_. env) (SHandler sp) (restarted s []) NewContext args = Some (v, w1, c1)"
      "log_write sp v u args c1 w1 = restarted s' []"
    unfolding Dispatch_restarted [OF sp(1,2,4) truncate_eqs(3) [OF env]] by auto
  have s: "wstore (restarted s []) = s" by (simp add: restarted_def)
  have "wstore w1 = wstore (log_write sp v u args c1 w1)" by simp
  then have s': "wstore w1 = s'" unfolding r(2) by (simp add: restarted_def)
  have "\<not> sets_ttl rt u args" using dur by (simp add: durable_cmd_def)
  from replay_one [OF sp(1-4) bypass truncate_eqs(3) [OF env] _ _ this r(1)] truncate_eqs(3) [OF env] ttl
  show ?thesis unfolding replays_step_def s s' using wire_ok_logged [OF sp(1) dur] by blast
qed

lemma commit_dispatch:
  assumes env: "Runtime.truncate env = rt" and up: "upper_idem rt" and ok: "session_ok rt w ctx" and wr: "SWrite sp"
    and run: "dispatch_begin env w ctx name args = Some (Started sp u args' (CallRet v), w', ctx')"
  shows "commits_as rt env u args' (wstore w) (wstore w')"
proof -
  have entry: "entry_ok rt sp u args' (CallRet v)"
    using dispatch_begin_ok [OF env up ok, of name args] run by (simp add: begun_ok_def)
  then have "fmlookup NewRegistry u = Some sp" by (simp add: entry_ok_def)
  with wr have ne: "SHandler sp \<noteq> ExecHandler"
    using registry.table_not_exec registry_tx_no_write by blast
  have start: "begin_call env sp w ctx args' = Some (CallRet v, w', ctx')"
    using run ne by (auto simp: dispatch_begin_def Let_def split: if_splits prod.splits sum.splits Handler.splits)
  show ?thesis by (rule commit_atomic [OF entry wr env start])
qed

lemma begin_requestE:
  assumes "begin_request env w ctx req = Some (p, w', ctx')"
  obtains (reply) v b where "p = Reply v b"
    | (started) name as sp u args call where "p = Running sp u args call"
        "dispatch_begin env w ctx name as = Some (Started sp u args call, w', ctx')"
    | (start_exec) sp u q where "p = Exec sp u q [] None"
proof (cases "\<exists>v b. p = Reply v b")
  case False
  with assms obtain b where "dispatch_begin env w ctx (ToUpper env (vStr (hd (vElems req)))) (tl (vElems req)) =
      Some (b, w', ctx')" "p = (case b of Replied v \<Rightarrow> Reply v True | Started sp u as c \<Rightarrow> Running sp u as c
        | StartExec sp u q \<Rightarrow> Exec sp u q [] None)"
    by (auto simp: begin_request_def Let_def split: if_splits)
  with that show thesis by (cases b) auto
qed (use reply in blast)

lemma ready_step:
  assumes "conn_step env wok w c = Some (w', c')" "cpc c = Ready" "cpc c' \<noteq> begin_close env w (cctx c)"
  obtains req where "begin_request env w (cctx c) req = Some (cpc c', w', cctx c')"
  using assms by (auto simp: conn_step_def split: sum.splits if_splits)

lemma call_step_write:
  assumes "call_step call h = (CallRet v, h')" "spec_call sp call" "SWrite sp" "\<And>v. call \<noteq> CallRet v"
  shows "SHandler sp = ConnHandler publish_cmd"
  using assms by (cases "(call, h)" rule: call_step.cases) (auto simp: spec_call_def Let_def split: prod.splits)

lemma pendingE:
  assumes "pending c \<noteq> []"
  obtains (running) sp u args v where "cpc c = Running sp u args (CallRet v)" "pending c = [Bulk u # args]" "SWrite sp"
    | (exec) sp' u' q rs sp u args v where "cpc c = Exec sp' u' q rs (Some (sp, u, args, CallRet v))"
        "pending c = [Bulk u # args]" "SWrite sp"
proof -
  have "(\<exists>sp u args v. cpc c = Running sp u args (CallRet v) \<and> pending c = [Bulk u # args] \<and> SWrite sp) \<or>
    (\<exists>sp' u' q rs sp u args v. cpc c = Exec sp' u' q rs (Some (sp, u, args, CallRet v)) \<and>
       pending c = [Bulk u # args] \<and> SWrite sp)"
    using assms unfolding pending_def
    by (cases "(cctx c, cpc c)" rule: pending_pc.cases) (auto simp: log_due_def split: if_splits)
  then show thesis using running exec by blast
qed

text \<open>The two places where a command can have been committed.\<close>

lemma commit_running:
  assumes env: "Runtime.truncate env = rt" and up: "upper_idem rt"
    and ok: "conn_ok rt (whub w) c" "world_ok w" and run: "conn_step env wok w c = Some (w', c')"
    and pc: "cpc c' = Running sp u args (CallRet v)" and wr: "SWrite sp"
  shows "commits_as rt env u args (wstore w) (wstore w')"
proof (cases "cpc c")
  case Ready
  with run pc obtain name as ctx' where
    "dispatch_begin env w (cctx c) name as = Some (Started sp u args (CallRet v), w', ctx')"
    by (elim ready_step begin_requestE) (auto simp: begin_close_def)
  from commit_dispatch [OF env up session_ok_conn [OF ok] wr this] show ?thesis .
next
  case (Running sp0 u0 args0 call)
  have e: "entry_ok rt sp0 u0 args0 call" using ok(1) Running by (simp add: conn_ok_def pc_ok_def)
  have "call \<noteq> CallRet v0" for v0 using run pc Running by (auto simp: conn_step_def)
  moreover from this have eq: "sp0 = sp" "u0 = u" "args0 = args" "call_step call (whub w) = (CallRet v, whub w')"
      "wstore w' = wstore w"
    using run pc Running by (cases call; auto simp: conn_step_def split: prod.splits)+
  ultimately have "SHandler sp = ConnHandler publish_cmd"
    using call_step_write [OF eq(4) _ wr] e by (auto simp: entry_ok_def eq)
  with commit_publish [OF _ wr _ env] e eq show ?thesis by simp
next
  case (Exec sp0 u0 q rs oc)
  have "\<not> SWrite sp0" using ok(1) Exec by (simp add: conn_ok_def pc_ok_def)
  with run pc wr Exec show ?thesis
    by (auto simp: conn_step_def split: option.splits call.splits list.splits begun.splits prod.splits)
next
  case (Reply v0 b)
  with run pc show ?thesis by (auto simp: conn_step_def)
next
  case (Writing v0 b)
  with run pc show ?thesis by (auto simp: conn_step_def begin_close_def split: if_splits)
next
  case (Closing chs)
  with run pc show ?thesis by (auto simp: conn_step_def split: list.splits)
qed (use run pc in \<open>simp add: conn_step_def\<close>)

lemma commit_exec:
  assumes env: "Runtime.truncate env = rt" and up: "upper_idem rt"
    and ok: "conn_ok rt (whub w) c" "world_ok w" and run: "conn_step env wok w c = Some (w', c')"
    and pc: "cpc c' = Exec sp' u' q rs (Some (sp, u, args, CallRet v))" and wr: "SWrite sp"
  shows "commits_as rt env u args (wstore w) (wstore w')"
proof (cases "cpc c")
  case Ready
  with run pc show ?thesis by (elim ready_step begin_requestE) (auto simp: begin_close_def)
next
  case (Running sp0 u0 args0 call)
  with run pc show ?thesis by (auto simp: conn_step_def split: call.splits prod.splits)
next
  case (Exec sp0 u0 q0 rs0 oc)
  show ?thesis
  proof (cases oc)
    case None
    with run pc Exec obtain name as ctx' where
      "dispatch_begin env w (cctx c) name as = Some (Started sp u args (CallRet v), w', ctx')"
      by (auto simp: conn_step_def split: option.splits list.splits begun.splits prod.splits)
    from commit_dispatch [OF env up session_ok_conn [OF ok] wr this] show ?thesis .
  next
    case (Some x)
    then obtain sp1 u1 args1 call where oc: "oc = Some (sp1, u1, args1, call)" by (cases x) auto
    have e: "entry_ok rt sp1 u1 args1 call" using ok(1) Exec oc by (simp add: conn_ok_def pc_ok_def)
    have "call \<noteq> CallRet v0" for v0 using run pc Exec oc by (auto simp: conn_step_def)
    moreover from this have eq: "sp1 = sp" "u1 = u" "args1 = args" "call_step call (whub w) = (CallRet v, whub w')"
        "wstore w' = wstore w"
      using run pc Exec oc by (cases call; auto simp: conn_step_def split: prod.splits)+
    ultimately have "SHandler sp = ConnHandler publish_cmd"
      using call_step_write [OF eq(4) _ wr] e by (auto simp: entry_ok_def eq)
    with commit_publish [OF _ wr _ env] e eq show ?thesis by simp
  qed
next
  case (Reply v0 b)
  with run pc show ?thesis by (auto simp: conn_step_def)
next
  case (Writing v0 b)
  with run pc show ?thesis by (auto simp: conn_step_def begin_close_def split: if_splits)
next
  case (Closing chs)
  with run pc show ?thesis by (auto simp: conn_step_def split: list.splits)
qed (use run pc in \<open>simp add: conn_step_def\<close>)

lemma conn_step_commit:
  assumes env: "Runtime.truncate env = rt" and up: "upper_idem rt"
    and ok: "conn_ok rt (whub w) c" "world_ok w" and run: "conn_step env wok w c = Some (w', c')"
    and pend: "pending c' \<noteq> []"
  shows "\<exists>u args. pending c' = [Bulk u # args] \<and> commits_as rt env u args (wstore w) (wstore w')"
  using pend
proof (cases rule: pendingE)
  case (running sp u args v)
  with commit_running [OF env up ok run] show ?thesis by blast
next
  case (exec sp' u' q rs sp u args v)
  with commit_exec [OF env up ok run] show ?thesis by blast
qed

lemma sweep_no_ttl: "no_ttl s \<Longrightarrow> sweepExpired now s = s"
proof -
  assume "no_ttl s"
  then have "fmfilter (\<lambda>k. case fmlookup (sdata s) k of None \<Rightarrow> False | Some e \<Rightarrow> \<not> expired e now) (sdata s) = sdata s"
    by (intro fmap_ext) (auto simp: no_ttl_def expired_def split: option.splits)
  then show ?thesis by (simp add: sweepExpired_def)
qed

text \<open>What one step does to the store: nothing, a sweep, or the critical section of a command.\<close>

lemma sys_step_store:
  assumes up: "upper_idem rt" and ok: "sys_ok rt s" "persists s" and step: "sys_step rt s a ev s'"
  obtains (same) "wstore (world s') = wstore (world s)" "commits ev = []"
    | (swept) now where "wstore (world s') = sweepExpired now (wstore (world s))" "commits ev = []"
    | (commit) env u args where "Runtime.truncate env = rt" "commits ev = [Bulk u # args]"
        "commits_as rt env u args (wstore (world s)) (wstore (world s'))"
  using step
proof cases
  case (accept i w ctx input)
  with conn_open_ok(2) [OF _ _ accept(5)] ok(1) same show thesis by (simp add: sys_ok_def world_ok_def)
next
  case (request i c env wok w c')
  have c: "conn_ok rt (whub (world s)) c" "world_ok (world s)" "OnWrite (cctx c)"
    using ok request(4) by (auto simp: sys_ok_def)
  show thesis
  proof (cases "pending c' = []")
    case True
    with conn_step_ok [OF request(6) up c(1,2), of wok] c(3) request(7) have "wstore w = wstore (world s)"
      by (simp add: conn_step_spec_def)
    with True request(2,3) same show thesis by simp
  next
    case False
    from conn_step_commit [OF request(6) up c(1,2) request(7) False] request(2,3,6) commit show thesis by auto
  qed
next
  case (forward i c wok w c')
  then have "wstore w = wstore (world s)"
    by (auto simp: forward_step_def split: fwd_pc.splits option.splits if_splits)
  with forward same show thesis by simp
next
  case (sweep now)
  with swept show thesis by simp
qed (use same in simp)

lemma sys_step_commit:
  assumes up: "upper_idem rt" and ok: "sys_ok rt s" "persists s" and step: "sys_step rt s a ev s'"
    and rep: "replays_to rt cs (wstore (world s))" and dur: "list_all (durable_event rt) ev"
  shows "replays_to rt (cs @ commits ev) (wstore (world s'))"
  using up ok step
proof (cases rule: sys_step_store)
  case (swept now)
  with rep sweep_no_ttl show ?thesis by (simp add: replays_to_def)
next
  case (commit env u args)
  obtain i where "Committed i (Bulk u # args) \<in> set ev"
    using arg_cong [OF commit(2), of set] by (auto simp: commits_def split: event.splits)
  with dur have "durable_event rt (Committed i (Bulk u # args))" by (auto simp: list_all_iff)
  then have "durable_cmd rt u args" by (simp add: durable_event_def Bulk_def)
  from commits_as_replays [OF commit(3,1) _ this] replays_to_snoc [OF rep] rep commit(2)
  show ?thesis by (simp add: replays_to_def)
qed (use rep in simp)

lemma sys_run_commit:
  assumes "sys_run rt s evs s'" "upper_idem rt" "sys_ok rt s" "persists s"
    and "replays_to rt cs (wstore (world s))" "list_all (durable_event rt) evs"
  shows "replays_to rt (cs @ commits evs) (wstore (world s'))"
  using assms(1) conjI [OF assms(2,3)] assms(6)
proof (induction rule: sys.run_induct)
  case (ext evs l s1 s2)
  then have "replays_to rt (cs @ commits evs) (wstore (world s1))" by simp
  moreover have "persists s1" using sys_run_ok [OF ext(1) assms(2,3)] assms(4) by simp
  ultimately show ?case using sys_step_commit [OF _ _ _ ext(3), of "cs @ commits evs"] ext(2,5) by simp
qed (use assms(5) in simp)

subsection \<open>The store with expiry times and the sweeper\<close>

text \<open>
  The serial server: one command after the other, each at its time and with its order of map
  iteration, and the sweeper between them.
\<close>

datatype action = Do Env "Value list" | Sweep Time

fun act :: "action \<Rightarrow> Store \<Rightarrow> Store option" where
  "act (Do env c) s =
     map_option (\<lambda>(v, w, ctx). wstore w)
       (Dispatch 2 (\<lambda>_. env) \<lparr>wstore = s, whub = NewHub, waof = []\<rparr> NewContext (vStr (hd c)) (tl c))"
| "act (Sweep now) s = Some (sweepExpired now s)"

fun serial :: "action list \<Rightarrow> Store \<Rightarrow> Store option" where
  "serial [] s = Some s"
| "serial (x # xs) s = Option.bind (act x s) (serial xs)"

definition commands :: "action list \<Rightarrow> Value list list" where
  "commands xs = concat (map (\<lambda>x. case x of Do _ c \<Rightarrow> [c] | Sweep _ \<Rightarrow> []) xs)"

definition action_in :: "Runtime \<Rightarrow> action \<Rightarrow> bool" where
  "action_in rt x = (case x of Do env _ \<Rightarrow> Runtime.truncate env = rt | Sweep _ \<Rightarrow> True)"

lemma serial_append: "serial (xs @ ys) s = Option.bind (serial xs s) (serial ys)"
  by (induction xs arbitrary: s) (auto split: bind_splits)

lemma commits_as_act:
  assumes "commits_as rt env u args s s'"
  shows "act (Do env (Bulk u # args)) s = Some s'"
proof -
  obtain v where "Dispatch 2 (\<lambda>_. env) (restarted s []) NewContext u args = Some (v, restarted s' [], NewContext)"
    using assms by (auto simp: commits_as_def)
  then show ?thesis by (simp add: restarted_def Bulk_def)
qed

lemma sys_run_serial:
  assumes "sys_run rt s evs s'" "upper_idem rt" "sys_ok rt s" "persists s"
  shows "\<exists>xs. serial xs (wstore (world s)) = Some (wstore (world s')) \<and> commands xs = commits evs \<and>
    list_all (action_in rt) xs"
  using assms(1) conjI [OF assms(2,3)]
proof (induction rule: sys.run_induct)
  case none
  show ?case by (rule exI [of _ "[]"]) (simp add: commands_def)
next
  case (ext evs l s1 s2)
  then obtain xs where xs: "serial xs (wstore (world s)) = Some (wstore (world s1))" "commands xs = commits evs"
      "list_all (action_in rt) xs" by blast
  have "persists s1" using sys_run_ok [OF ext(1) assms(2,3)] assms(4) by simp
  from assms(2) ext(2) [THEN conjunct2] this ext(3)
  have "\<exists>ys. serial ys (wstore (world s1)) = Some (wstore (world s2)) \<and> commands ys = commits (snd l) \<and>
      list_all (action_in rt) ys"
  proof (cases rule: sys_step_store)
    case same
    then show ?thesis by (intro exI [of _ "[]"]) (simp add: commands_def)
  next
    case (swept now)
    then show ?thesis by (intro exI [of _ "[Sweep now]"]) (simp add: commands_def action_in_def)
  next
    case (commit env u args)
    with commits_as_act [OF commit(3)] show ?thesis
      by (intro exI [of _ "[Do env (Bulk u # args)]"]) (simp add: commands_def action_in_def del: act.simps)
  qed
  then obtain ys where "serial ys (wstore (world s1)) = Some (wstore (world s2))" "commands ys = commits (snd l)"
      "list_all (action_in rt) ys" by blast
  with xs show ?case by (intro exI [of _ "xs @ ys"]) (simp add: serial_append commands_def)
qed

subsection \<open>The write mutex\<close>

text \<open>The request loop and the forwarder of a connection never write at the same time.\<close>

definition write_exclusive :: "Sys \<Rightarrow> bool" where
  "write_exclusive s \<longleftrightarrow> fmpred (\<lambda>_ c. \<not> (loop_holds (cpc c) \<and> fwd_holds (cfwd c))) (conns s)"

lemma conn_step_mutex:
  assumes "conn_step env wok w c = Some (w', c')" "\<not> waits_mutex c"
  shows "cfwd c' = cfwd c" "loop_holds (cpc c') \<Longrightarrow> \<not> fwd_holds (cfwd c)"
proof -
  have req: "\<not> loop_holds p" if "begin_request env w ctx req = Some (p, w1, ctx1)" for ctx req p w1 ctx1
    using that by (elim begin_requestE) auto
  show "cfwd c' = cfwd c"
    using assms(1)
    by (auto simp: conn_step_def Let_def split: pc.splits sum.splits if_splits call.splits option.splits list.splits
        begun.splits prod.splits)
  show "\<not> fwd_holds (cfwd c)" if "loop_holds (cpc c')"
    using assms that
    by (cases "cpc c") (auto simp: conn_step_def waits_mutex_def begin_close_def Let_def dest: req
        split: sum.splits if_splits call.splits option.splits list.splits begun.splits prod.splits)
qed

lemma sys_step_exclusive: "sys_step rt s a ev s' \<Longrightarrow> write_exclusive s \<Longrightarrow> write_exclusive s'"
proof (induction rule: sys_step.induct)
  case (request s i c env wok w c')
  with conn_step_mutex [OF request(4,5)] show ?case by (auto simp: write_exclusive_def)
next
  case (forward s i c wok w c')
  then have "\<not> (loop_holds (cpc c) \<and> fwd_holds (cfwd c))" by (auto simp: write_exclusive_def)
  with forward(2) have "\<not> (loop_holds (cpc c') \<and> fwd_holds (cfwd c'))"
    by (auto simp: forward_step_def split: fwd_pc.splits option.splits if_splits)
  with forward show ?case by (auto simp: write_exclusive_def)
next
  case (forward_end s i c c')
  then show ?case by (auto simp: write_exclusive_def forward_stop_def split: if_splits)
qed (auto simp: write_exclusive_def)

lemma sys_run_exclusive: "sys_run rt s evs s' \<Longrightarrow> write_exclusive s \<Longrightarrow> write_exclusive s'"
  by (induction rule: sys_run.induct) (auto dest: sys_step_exclusive)

subsection \<open>Progress\<close>

text \<open>
  A connection is busy from reading a request to the end of its reply. Every step of a busy
  connection takes it forward in a well-founded order, which no step of another goroutine
  changes: first the commands that \<open>exec\<close> has left, then what is left of the running call.
  It can be held up in two places: at the mutex, while its own forwarder writes, and in the
  write of its reply, while the client does not read.
\<close>

fun call_work :: "call \<Rightarrow> nat" where
  "call_work (CallSub _ chs _) = length chs + 2"
| "call_work (CallUnsub _ chs _) = length chs + 2"
| "call_work (CallPub _ is _) = length is + 2"
| "call_work (CallRet _) = 1"

fun work :: "pc \<Rightarrow> nat \<times> nat" where
  "work (Running _ _ _ call) = (0, call_work call + 1)"
| "work (Exec _ _ q _ None) = (Suc (length q), 0)"
| "work (Exec _ _ q _ (Some (_, _, _, call))) = (Suc (length q), call_work call)"
| "work (Reply _ _) = (0, 1)"
| "work _ = (0, 0)"

fun busy :: "pc \<Rightarrow> bool" where
  "busy (Running _ _ _ _) = True"
| "busy (Exec _ _ _ _ _) = True"
| "busy (Reply _ _) = True"
| "busy (Writing _ _) = True"
| "busy _ = False"

definition conn_busy :: "nat \<Rightarrow> Sys \<Rightarrow> bool" where
  "conn_busy i s = (case fmlookup (conns s) i of None \<Rightarrow> False | Some c \<Rightarrow> busy (cpc c))"

definition conn_work :: "nat \<Rightarrow> Sys \<Rightarrow> nat \<times> nat" where
  "conn_work i s = (case fmlookup (conns s) i of None \<Rightarrow> (0, 0) | Some c \<Rightarrow> work (cpc c))"

abbreviation work_order :: "((nat \<times> nat) \<times> (nat \<times> nat)) set" where
  "work_order \<equiv> less_than <*lex*> less_than"

lemma call_step_work:
  "call_step call h = (call', h') \<Longrightarrow> (\<And>v. call \<noteq> CallRet v) \<Longrightarrow> call_work call' < call_work call"
  by (cases "(call, h)" rule: call_step.cases) (auto simp: Let_def split: prod.splits)

lemma conn_step_work:
  assumes run: "conn_step env wok w c = Some (w', c')" and busy: "busy (cpc c)"
  shows "\<not> busy (cpc c') \<or> (work (cpc c'), work (cpc c)) \<in> work_order"
proof (cases "cpc c")
  case (Running sp u args call)
  show ?thesis
  proof (cases "\<exists>v. call = CallRet v")
    case False
    then have "\<exists>call' h. call_step call (whub w) = (call', h) \<and> cpc c' = Running sp u args call'"
      using run Running by (cases call) (auto simp: conn_step_def split: prod.splits)
    with False Running call_step_work show ?thesis by auto
  qed (use run Running in \<open>auto simp: conn_step_def\<close>)
next
  case (Exec sp u q rs oc)
  show ?thesis
  proof (cases "\<exists>sp' u' args call. oc = Some (sp', u', args, call) \<and> (\<forall>v. call \<noteq> CallRet v)")
    case True
    then obtain sp' u' args call where oc: "oc = Some (sp', u', args, call)" "\<And>v. call \<noteq> CallRet v" by blast
    then have "\<exists>call' h. call_step call (whub w) = (call', h) \<and> cpc c' = Exec sp u q rs (Some (sp', u', args, call'))"
      using run Exec by (cases call) (auto simp: conn_step_def split: prod.splits)
    with oc Exec call_step_work show ?thesis by auto
  next
    case False
    with run Exec show ?thesis
      by (cases oc) (auto simp: conn_step_def split: option.splits list.splits begun.splits prod.splits call.splits)
  qed
next
  case (Reply v b)
  with run show ?thesis by (auto simp: conn_step_def)
next
  case (Writing v b)
  with run show ?thesis by (auto simp: conn_step_def begin_close_def split: if_splits)
qed (use busy in auto)

lemma sys_step_own:
  assumes step: "sys_step rt s (Some i) ev s'" and busy: "conn_busy i s"
  shows "\<not> conn_busy i s' \<or> (conn_work i s', conn_work i s) \<in> work_order"
  using step
proof cases
  case (request c env wok w c')
  with busy conn_step_work [OF request(6)] show ?thesis by (auto simp: conn_busy_def conn_work_def)
qed

text \<open>The steps of the other goroutines leave the control point of a request loop alone.\<close>

definition conn_pc :: "nat \<Rightarrow> Sys \<Rightarrow> pc option" where
  "conn_pc i s = map_option cpc (fmlookup (conns s) i)"

lemma conn_busy_pc: "conn_busy i s \<longleftrightarrow> (\<exists>p. conn_pc i s = Some p \<and> busy p)"
  by (auto simp: conn_busy_def conn_pc_def split: option.split)

lemma conn_work_pc: "conn_pc i s = Some p \<Longrightarrow> conn_work i s = work p"
  by (auto simp: conn_work_def conn_pc_def)

lemma sys_step_other:
  assumes step: "sys_step rt s a ev s'" and "a \<noteq> Some i" "conn_pc i s = Some p"
  shows "conn_pc i s' = Some p"
  using step
proof cases
  case (forward j c wok w c')
  then have "cpc c' = cpc c" by (auto simp: forward_step_def split: fwd_pc.splits option.splits if_splits)
  with forward assms(3) show ?thesis by (auto simp: conn_pc_def)
next
  case (forward_end j c c')
  then have "cpc c' = cpc c" by (auto simp: forward_stop_def split: if_splits)
  with forward_end assms(3) show ?thesis by (auto simp: conn_pc_def)
qed (use assms(2,3) in \<open>auto simp: conn_pc_def mem_fmdom_iff split: if_splits\<close>)

text \<open>An infinite run, the goroutine that takes each step (\<open>None\<close>: not a request loop).\<close>

definition infinite_run :: "Runtime \<Rightarrow> (nat \<Rightarrow> Sys) \<Rightarrow> (nat \<Rightarrow> nat option) \<Rightarrow> bool" where
  "infinite_run rt \<sigma> a \<longleftrightarrow> (\<forall>n. \<exists>ev. sys_step rt (\<sigma> n) (a n) ev (\<sigma> (Suc n)))"

text \<open>
  Who writes to the socket of a connection with the mutex held, and whether its request loop
  can run: it has not returned and waits neither for the mutex nor for the client.
\<close>

definition loop_writes :: "nat \<Rightarrow> Sys \<Rightarrow> bool" where
  "loop_writes i s = (case fmlookup (conns s) i of None \<Rightarrow> False | Some c \<Rightarrow> loop_holds (cpc c))"

definition fwd_writes :: "nat \<Rightarrow> Sys \<Rightarrow> bool" where
  "fwd_writes i s = (case fmlookup (conns s) i of None \<Rightarrow> False | Some c \<Rightarrow> fwd_holds (cfwd c))"

definition runnable :: "nat \<Rightarrow> Sys \<Rightarrow> bool" where
  "runnable i s = (case fmlookup (conns s) i of
     None \<Rightarrow> False | Some c \<Rightarrow> cpc c \<noteq> Done \<and> \<not> waits_mutex c \<and> \<not> loop_holds (cpc c))"

text \<open>
  The scheduler and the mutex are fair to a request loop that can run again and again (a Go
  mutex goes to the goroutine that has waited longest once it has waited for a millisecond),
  and no write to the socket lasts for ever: the client reads, or the connection breaks.
\<close>

definition fair_to :: "nat \<Rightarrow> (nat \<Rightarrow> Sys) \<Rightarrow> (nat \<Rightarrow> nat option) \<Rightarrow> bool" where
  "fair_to i \<sigma> a \<longleftrightarrow> (\<forall>n. \<exists>m\<ge>n. runnable i (\<sigma> m)) \<longrightarrow> (\<forall>n. \<exists>m\<ge>n. a m = Some i)"

definition client_reads :: "nat \<Rightarrow> (nat \<Rightarrow> Sys) \<Rightarrow> bool" where
  "client_reads i \<sigma> \<longleftrightarrow>
     (\<forall>n. loop_writes i (\<sigma> n) \<longrightarrow> (\<exists>m\<ge>n. \<not> loop_writes i (\<sigma> m))) \<and>
     (\<forall>n. fwd_writes i (\<sigma> n) \<longrightarrow> (\<exists>m\<ge>n. \<not> fwd_writes i (\<sigma> m)))"

lemma pc_stays:
  assumes run: "infinite_run rt \<sigma> a" and pc: "conn_pc i (\<sigma> n) = Some p"
    and idle: "\<And>k. n \<le> k \<Longrightarrow> k < m \<Longrightarrow> a k \<noteq> Some i" and le: "n \<le> m"
  shows "conn_pc i (\<sigma> m) = Some p"
  using le idle
proof (induction m rule: dec_induct)
  case (step m)
  obtain ev where "sys_step rt (\<sigma> m) (a m) ev (\<sigma> (Suc m))" using run by (auto simp: infinite_run_def)
  with sys_step_other [OF this] step show ?case by simp
qed (use pc in simp)

lemma runnable_pc:
  assumes "conn_pc i s = Some p" "busy p" "\<not> loop_holds p" "\<not> fwd_writes i s"
  shows "runnable i s"
  using assms by (auto simp: conn_pc_def runnable_def fwd_writes_def waits_mutex_def split: pc.splits)

text \<open>A busy request loop takes a step, be it in front of the mutex or in a write.\<close>

lemma own_step:
  assumes run: "infinite_run rt \<sigma> a" and fair: "fair_to i \<sigma> a" and reads: "client_reads i \<sigma>"
    and pc: "conn_pc i (\<sigma> n) = Some p" "busy p"
  shows "\<exists>m\<ge>n. a m = Some i"
proof (rule ccontr)
  assume none: "\<not> (\<exists>m\<ge>n. a m = Some i)"
  then have stays: "conn_pc i (\<sigma> m) = Some p" if "n \<le> m" for m
    using pc_stays [OF run pc(1) _ that] by blast
  show False
  proof (cases "loop_holds p")
    case True
    with stays have "loop_writes i (\<sigma> m)" if "n \<le> m" for m
      using that by (fastforce simp: loop_writes_def conn_pc_def)
    with reads show False unfolding client_reads_def by (meson order_refl)
  next
    case False
    have "\<exists>k\<ge>m. runnable i (\<sigma> k)" if "n \<le> m" for m
    proof -
      obtain k where "m \<le> k" "\<not> fwd_writes i (\<sigma> k)"
        using reads unfolding client_reads_def by (meson order_refl)
      with runnable_pc [OF stays pc(2) False] that show ?thesis by (meson order_trans)
    qed
    then have "\<forall>m. \<exists>k\<ge>m. runnable i (\<sigma> k)" by (meson nat_le_linear order_trans)
    with fair none show False unfolding fair_to_def by blast
  qed
qed

lemma fair_progress:
  assumes run: "infinite_run rt \<sigma> a" and fair: "fair_to i \<sigma> a" and reads: "client_reads i \<sigma>"
  shows "conn_busy i (\<sigma> n) \<Longrightarrow> \<exists>m\<ge>n. \<not> conn_busy i (\<sigma> m)"
proof (induction "conn_work i (\<sigma> n)" arbitrary: n rule: wf_induct [of work_order, case_names wf step])
  case step
  then obtain p where p: "conn_pc i (\<sigma> n) = Some p" "busy p" by (auto simp: conn_busy_pc)
  define m where "m = (LEAST m. n \<le> m \<and> a m = Some i)"
  have m: "n \<le> m" "a m = Some i"
    unfolding m_def using LeastI_ex [OF own_step [OF run fair reads p, unfolded Bex_def]] by auto
  have "a k \<noteq> Some i" if "n \<le> k" "k < m" for k
    using not_less_Least [of k "\<lambda>m. n \<le> m \<and> a m = Some i"] that unfolding m_def by blast
  from pc_stays [OF run p(1) this m(1)] have pm: "conn_pc i (\<sigma> m) = Some p" .
  obtain ev where s: "sys_step rt (\<sigma> m) (Some i) ev (\<sigma> (Suc m))" using run m(2) by (metis infinite_run_def)
  have "conn_busy i (\<sigma> m)" using pm p(2) by (auto simp: conn_busy_pc)
  from sys_step_own [OF s this] conn_work_pc [OF pm] conn_work_pc [OF p(1)]
  consider "\<not> conn_busy i (\<sigma> (Suc m))"
    | "conn_busy i (\<sigma> (Suc m))" "(conn_work i (\<sigma> (Suc m)), conn_work i (\<sigma> n)) \<in> work_order"
    by auto
  then show ?case
  proof cases
    case 1
    then show ?thesis using m(1) by (intro exI [of _ "Suc m"]) simp
  next
    case 2
    then obtain k where "k \<ge> Suc m" "\<not> conn_busy i (\<sigma> k)" using step(1) by blast
    then show ?thesis using m(1) by (intro exI [of _ k]) simp
  qed
qed (rule wf_lex_prod [OF wf_less_than wf_less_than])

end
