(* ===== verification/Sequential.thy ===== *)
theory Sequential
  imports Interleaving
begin

section \<open>The steps of a request make up the request\<close>

text \<open>
  With nobody else running, the steps of a connection from the read of a request to its
  reply add up to what \<open>handle_request\<close> does in one go. So the properties of the
  sequential model of the server (\<open>Server\<close>, \<open>Dispatch\<close>) are those of the interleaved one
  between two interferences.
\<close>

text \<open>What the rest of a call gives when nobody interferes.\<close>

fun finish_call :: "call \<Rightarrow> Hub \<Rightarrow> Value \<times> Hub" where
  "finish_call (CallSub i chs fs) h = (let (fs', h') = subscribe_loop i chs h in (MultiFrame (fs @ fs'), h'))"
| "finish_call (CallUnsub i chs fs) h = (let (fs', h') = unsubscribe_loop i chs h in (MultiFrame (fs @ fs'), h'))"
| "finish_call (CallPub m is n) h = (let (n', h') = fold (deliver m) is (n, h) in (int_reply n', h'))"
| "finish_call (CallRet v) h = (v, h)"

lemma finish_call_step: "call_step call h = (call', h') \<Longrightarrow> finish_call call' h' = finish_call call h"
  by (cases "(call, h)" rule: call_step.cases) (auto simp: Let_def case_prod_beta)

lemma registry_hub_handlers:
  assumes "fmlookup NewRegistry u = Some sp" "SHandler sp = ConnHandler h"
  shows "u = ''SUBSCRIBE'' \<Longrightarrow> h = subscribe_cmd" "u = ''UNSUBSCRIBE'' \<Longrightarrow> h = unsubscribe_cmd"
    "u = ''PUBLISH'' \<Longrightarrow> h = publish_cmd"
proof -
  have "list_all (\<lambda>s. (Name s = ''SUBSCRIBE'' \<longrightarrow> SHandler s = ConnHandler subscribe_cmd) \<and>
      (Name s = ''UNSUBSCRIBE'' \<longrightarrow> SHandler s = ConnHandler unsubscribe_cmd) \<and>
      (Name s = ''PUBLISH'' \<longrightarrow> SHandler s = ConnHandler publish_cmd)) all_specs"
    by (simp add: all_specs_def command_lists)
  then show "u = ''SUBSCRIBE'' \<Longrightarrow> h = subscribe_cmd" "u = ''UNSUBSCRIBE'' \<Longrightarrow> h = unsubscribe_cmd"
    "u = ''PUBLISH'' \<Longrightarrow> h = publish_cmd"
    using NewRegistry_lookup [OF assms(1)] assms(2) by (auto simp: list_all_iff)
qed

definition finished :: "call \<Rightarrow> World \<Rightarrow> Value \<times> World" where
  "finished call w = (let (v, h) = finish_call call (whub w) in (v, w\<lparr>whub := h\<rparr>))"

lemma finished_Ret [simp]: "finished (CallRet v) w = (v, w)"
  by (simp add: finished_def)

lemma begin_call_finished:
  assumes sp: "fmlookup NewRegistry u = Some sp" "SHandler sp \<noteq> ExecHandler"
  shows "run_handler disp (\<lambda>_. env) (SHandler sp) w ctx args =
    map_option (\<lambda>(call, w', ctx'). (fst (finished call w'), snd (finished call w'), ctx'))
      (begin_call env sp w ctx args)"
proof (cases "(\<exists>h. SHandler sp = StoreHandler h) \<or> Name sp \<notin> {''SUBSCRIBE'', ''UNSUBSCRIBE'', ''PUBLISH''}")
  case True
  show ?thesis
    by (simp add: begin_call_atomic [OF sp(2) True, where disp = disp] option.map_comp comp_def case_prod_unfold
        option.map_ident)
next
  case False
  then obtain h where h: "SHandler sp = ConnHandler h" using sp(2) by (cases "SHandler sp") auto
  have name: "Name sp = u" using NewRegistry_lookup [OF sp(1)] by simp
  from False name consider "u = ''SUBSCRIBE''" | "u = ''UNSUBSCRIBE''" | "u = ''PUBLISH''" by auto
  then show ?thesis
  proof cases
    case 1
    with registry_hub_handlers(1) [OF sp(1) h] h name show ?thesis
      by (simp add: run_handler_def begin_call_def subscribe_cmd_def finished_def case_prod_beta Let_def)
  next
    case 2
    obtain i ctx' hub where "ctx_Subscriber ctx (whub w) = (i, ctx', hub)" by (metis prod_cases3)
    with 2 registry_hub_handlers(2) [OF sp(1) h] h name show ?thesis
      by (simp add: run_handler_def begin_call_def unsubscribe_cmd_def finished_def case_prod_beta Let_def)
  next
    case 3
    with registry_hub_handlers(3) [OF sp(1) h] h name show ?thesis
      by (cases "arg 0 args"; cases "arg 1 args")
        (simp_all add: run_handler_def begin_call_def publish_cmd_def Publish_def finished_def case_prod_beta Let_def)
  qed
qed

subsection \<open>A dispatch\<close>

definition finish_dispatch ::
    "nat \<Rightarrow> Env \<Rightarrow> begun \<times> World \<times> Context \<Rightarrow> (Value \<times> World \<times> Context) option" where
  "finish_dispatch d env x =
     (case x of (b, w, ctx) \<Rightarrow>
        case b of
          Replied v \<Rightarrow> Some (v, w, ctx)
        | Started sp u args call \<Rightarrow>
            (let (v, w') = finished call w in Some (v, log_write sp v u args ctx w', ctx))
        | StartExec sp u q \<Rightarrow>
            map_option (\<lambda>(rs, w', ctx'). (Array rs, log_write sp (Array rs) u [] ctx' w', ctx'))
              (exec_queue (Dispatch d) (\<lambda>_. env) 1 q w ctx))"

lemma Dispatch_begin:
  assumes env: "Runtime.truncate env = rt" and up: "upper_idem rt"
  shows "Dispatch (Suc d) (\<lambda>_. env) w ctx name args =
    Option.bind (dispatch_begin env w ctx name args) (finish_dispatch d env)"
proof -
  define u where "u = ToUpper rt name"
  have u: "ToUpper rt u = u" using up by (simp add: u_def upper_idem_def)
  note eqs = Dispatch.simps dispatch_begin_def truncate_eqs [OF env] u_def [symmetric]
  show ?thesis
  proof (cases "inTx ctx \<and> u \<notin> set commandsBypassingQueue")
    case True
    then show ?thesis by (simp add: eqs finish_dispatch_def case_prod_beta)
  next
    case out: False
    show ?thesis
    proof (cases "validate rt u args")
      case (Inl v)
      with out show ?thesis by (auto simp: eqs finish_dispatch_def)
    next
      case (Inr sp)
      then have sp: "fmlookup NewRegistry u = Some sp" "CheckArity sp (length args)"
        by (simp_all add: validate_Inr u)
      show ?thesis
      proof (cases "SHandler sp = ExecHandler")
        case True
        then have "args = []" using registry_hub_specs(3) [OF sp(1)] sp(2) by (simp add: argc_is_def)
        then show ?thesis
          using out Inr True
          by (auto simp: eqs finish_dispatch_def run_handler_def exec_cmd_def Let_def split: option.splits)
      next
        case False
        with out Inr show ?thesis
          by (auto simp: eqs finish_dispatch_def begin_call_finished [OF sp(1) False] case_prod_beta Let_def
              split: option.splits Handler.splits)
      qed
    qed
  qed
qed

subsection \<open>The steps of one request\<close>

definition solo_step :: "Env \<Rightarrow> World \<times> Conn \<Rightarrow> World \<times> Conn \<Rightarrow> bool" where
  "solo_step env x y \<longleftrightarrow> conn_step env True (fst x) (snd x) = Some y"

abbreviation solo_steps :: "Env \<Rightarrow> World \<times> Conn \<Rightarrow> World \<times> Conn \<Rightarrow> bool" where
  "solo_steps env \<equiv> (solo_step env)\<^sup>*\<^sup>*"

lemma solo_first: "conn_step env True w c = Some y \<Longrightarrow> solo_steps env y z \<Longrightarrow> solo_steps env (w, c) z"
  by (rule converse_rtranclp_into_rtranclp) (simp_all add: solo_step_def)

lemma conn_upds:
  fixes c :: Conn
  shows "c\<lparr>cctx := x, cpc := p\<rparr> = c\<lparr>cpc := p, cctx := x\<rparr>"
    "c\<lparr>cctx := x, cin := i, cpc := p\<rparr> = c\<lparr>cpc := p, cctx := x, cin := i\<rparr>"
    "c\<lparr>cin := i, cctx := x\<rparr> = c\<lparr>cctx := x, cin := i\<rparr>"
  by (cases c, simp)+

text \<open>
  A running call gets to its end, wherever the control point \<open>P\<close> has it: in the request
  loop or in the loop of \<open>exec\<close>.
\<close>

lemma solo_calls:
  assumes step: "\<And>w call call' h. (\<nexists>v. call = CallRet v) \<Longrightarrow> call_step call (whub w) = (call', h) \<Longrightarrow>
      conn_step env True w (c\<lparr>cpc := P call\<rparr>) = Some (w\<lparr>whub := h\<rparr>, c\<lparr>cpc := P call'\<rparr>)"
    and "finished call w = (v, w')"
  shows "solo_steps env (w, c\<lparr>cpc := P call\<rparr>) (w', c\<lparr>cpc := P (CallRet v)\<rparr>)"
  using assms(2)
proof (induction "call_work call" arbitrary: call w rule: less_induct)
  case less
  show ?case
  proof (cases "\<exists>v. call = CallRet v")
    case True
    with less.prems show ?thesis by (auto simp: finished_def)
  next
    case False
    obtain call' h where s: "call_step call (whub w) = (call', h)" by fastforce
    have "call_work call' < call_work call" using call_step_work [OF s] False by blast
    moreover have "finished call' (w\<lparr>whub := h\<rparr>) = (v, w')"
      using less.prems finish_call_step [OF s] by (simp add: finished_def case_prod_beta)
    ultimately have "solo_steps env (w\<lparr>whub := h\<rparr>, c\<lparr>cpc := P call'\<rparr>) (w', c\<lparr>cpc := P (CallRet v)\<rparr>)"
      by (rule less.hyps)
    with step [OF False s] show ?thesis by (rule solo_first)
  qed
qed

lemma solo_running:
  assumes "finished call w = (v, w')"
  shows "solo_steps env (w, c\<lparr>cpc := Running sp u args call\<rparr>)
    (log_write sp v u args (cctx c) w', c\<lparr>cpc := Reply v True\<rparr>)"
proof -
  have "solo_steps env (w, c\<lparr>cpc := Running sp u args call\<rparr>) (w', c\<lparr>cpc := Running sp u args (CallRet v)\<rparr>)"
    using assms by (rule solo_calls [rotated]) (auto simp: conn_step_def split: call.split)
  moreover have "solo_step env (w', c\<lparr>cpc := Running sp u args (CallRet v)\<rparr>)
      (log_write sp v u args (cctx c) w', c\<lparr>cpc := Reply v True\<rparr>)"
    by (simp add: solo_step_def conn_step_def)
  ultimately show ?thesis by (rule rtranclp.rtrancl_into_rtrancl)
qed

lemma solo_exec_call:
  assumes "finished call w = (v, w')"
  shows "solo_steps env (w, c\<lparr>cpc := Exec sp u q rs (Some (sp', u', args, call))\<rparr>)
    (log_write sp' v u' args (cctx c) w', c\<lparr>cpc := Exec sp u q (rs @ [v]) None\<rparr>)"
proof -
  let ?P = "\<lambda>call. Exec sp u q rs (Some (sp', u', args, call))"
  have "solo_steps env (w, c\<lparr>cpc := ?P call\<rparr>) (w', c\<lparr>cpc := ?P (CallRet v)\<rparr>)"
    using assms by (rule solo_calls [rotated]) (auto simp: conn_step_def split: call.split)
  moreover have "solo_step env (w', c\<lparr>cpc := ?P (CallRet v)\<rparr>)
      (log_write sp' v u' args (cctx c) w', c\<lparr>cpc := Exec sp u q (rs @ [v]) None\<rparr>)"
    by (simp add: solo_step_def conn_step_def)
  ultimately show ?thesis by (rule rtranclp.rtrancl_into_rtrancl)
qed

lemma finish_Started:
  assumes "finish_dispatch d env (Started sp u args call, w0, c0) = Some (v, w', ctx')"
  obtains w1 where "finished call w0 = (v, w1)" "w' = log_write sp v u args c0 w1" "ctx' = c0"
proof -
  obtain r w1 where r: "finished call w0 = (r, w1)" by fastforce
  have "r = v \<and> log_write sp r u args c0 w1 = w' \<and> c0 = ctx'"
    using assms unfolding finish_dispatch_def by (simp add: r) metis
  with r that show thesis by blast
qed

text \<open>One command of the queue; it never starts another transaction.\<close>

lemma solo_exec_one:
  assumes "dispatch_begin env w (cctx c) (qName qc) (qArgs qc) = Some (b, w0, c0)" "\<forall>sp u q. b \<noteq> StartExec sp u q"
    and "finish_dispatch d env (b, w0, c0) = Some (v, w1, c1)"
  shows "solo_steps env (w, c\<lparr>cpc := Exec sp u (qc # q) rs None\<rparr>)
    (w1, c\<lparr>cpc := Exec sp u q (rs @ [v]) None, cctx := c1\<rparr>)"
proof (cases b)
  case (Started sp' u' args call)
  let ?c = "c\<lparr>cctx := c0\<rparr>" and ?P = "Exec sp u q rs (Some (sp', u', args, call))"
  from assms(3) obtain w2 where fin: "finished call w0 = (v, w2)" "w1 = log_write sp' v u' args c0 w2" "c1 = c0"
    unfolding Started by (rule finish_Started)
  have "conn_step env True w (c\<lparr>cpc := Exec sp u (qc # q) rs None\<rparr>) = Some (w0, ?c\<lparr>cpc := ?P\<rparr>)"
    using assms(1) Started by (simp add: conn_step_def conn_upds)
  then show ?thesis
    by (rule solo_first) (use solo_exec_call [where c = ?c, OF fin(1)] fin in \<open>simp add: conn_upds\<close>)
next
  case (Replied r)
  with assms(1,3) have "conn_step env True w (c\<lparr>cpc := Exec sp u (qc # q) rs None\<rparr>) =
      Some (w1, c\<lparr>cpc := Exec sp u q (rs @ [v]) None, cctx := c1\<rparr>)"
    by (auto simp: conn_step_def finish_dispatch_def)
  then show ?thesis by (rule solo_first) simp
qed (use assms(2) in simp)

text \<open>The loop of \<open>exec\<close>.\<close>

lemma solo_exec:
  assumes env: "Runtime.truncate env = rt" and up: "upper_idem rt"
  shows "list_all (queued_ok rt) q \<Longrightarrow> session_ok rt w (cctx c) \<Longrightarrow> \<not> inTx (cctx c) \<Longrightarrow>
    exec_queue (Dispatch (Suc d)) (\<lambda>_. env) i q w (cctx c) = Some (vs, w', ctx') \<Longrightarrow>
    solo_steps env (w, c\<lparr>cpc := Exec sp u q rs None\<rparr>) (w', c\<lparr>cpc := Exec sp u [] (rs @ vs) None, cctx := ctx'\<rparr>)"
proof (induction q arbitrary: i w c rs vs)
  case Nil
  have "c\<lparr>cpc := p, cctx := cctx c\<rparr> = c\<lparr>cpc := p\<rparr>" for p by (cases c) simp
  with Nil show ?case by auto
next
  case (Cons qc q)
  have qc: "ToUpper rt (qName qc) = qName qc" "qName qc \<notin> set commandsBypassingQueue"
    using Cons.prems(1) by (simp_all add: queued_ok_def)
  have sr: "same_runtime rt (\<lambda>_. env)" by (rule truncate_eqs(3) [OF env])
  obtain v w1 c1 where 1: "Dispatch (Suc d) (\<lambda>_. env) w (cctx c) (qName qc) (qArgs qc) = Some (v, w1, c1)"
      "session_ok rt w1 c1" "same_tx (cctx c) c1"
    using Dispatch_plain [OF sr Cons.prems(2,3) qc(1,1,2)] by blast
  obtain vs' where 2: "vs = v # vs'" "exec_queue (Dispatch (Suc d)) (\<lambda>_. env) (Suc i) q w1 c1 = Some (vs', w', ctx')"
    using Cons.prems(4) 1(1) by (auto split: option.splits)
  obtain b w0 c0 where b: "dispatch_begin env w (cctx c) (qName qc) (qArgs qc) = Some (b, w0, c0)"
      "\<forall>sp u q. b \<noteq> StartExec sp u q"
    using dispatch_begin_ok [OF env up Cons.prems(2), of "qName qc" "qArgs qc"] Cons.prems(3) qc by auto
  have "finish_dispatch d env (b, w0, c0) = Some (v, w1, c1)"
    using 1(1) b(1) by (simp add: Dispatch_begin [OF env up])
  note first = solo_exec_one [where c = c, OF b this, of sp u q rs]
  have "\<not> inTx c1" using 1(3) Cons.prems(3) by (simp add: same_tx_def)
  then have "solo_steps env (w1, c\<lparr>cctx := c1, cpc := Exec sp u q (rs @ [v]) None\<rparr>)
      (w', c\<lparr>cctx := c1, cpc := Exec sp u [] ((rs @ [v]) @ vs') None, cctx := ctx'\<rparr>)"
    using Cons.IH [of w1 "c\<lparr>cctx := c1\<rparr>" "Suc i" vs' "rs @ [v]"] Cons.prems(1) 1(2) 2(2) by simp
  with first show ?case using 2(1) by (simp add: conn_upds)
qed

text \<open>From the first access to shared state to the reply.\<close>

lemma solo_begun:
  assumes env: "Runtime.truncate env = rt" and up: "upper_idem rt"
    and x: "session_ok rt w (cctx c)" "begun_ok rt (whub w) (cctx c) x"
    and f: "finish_dispatch 1 env (x, w, cctx c) = Some (v, w', ctx')"
  shows "solo_steps env (w, c\<lparr>cpc := (case x of Replied v \<Rightarrow> Reply v True | Started sp u as c \<Rightarrow> Running sp u as c
      | StartExec sp u q \<Rightarrow> Exec sp u q [] None)\<rparr>) (w', c\<lparr>cpc := Reply v True, cctx := ctx'\<rparr>)"
proof -
  have same: "c\<lparr>cpc := p, cctx := cctx c\<rparr> = c\<lparr>cpc := p\<rparr>" for p by (cases c) simp
  show ?thesis
  proof (cases x)
    case (Replied r)
    with f show ?thesis by (auto simp: finish_dispatch_def same)
  next
    case (Started sp u args call)
    from f obtain w1 where "finished call w = (v, w1)" "w' = log_write sp v u args (cctx c) w1" "ctx' = cctx c"
      unfolding Started by (rule finish_Started)
    with solo_running [where c = c, of call w v w1] Started show ?thesis by (simp add: same)
  next
    case (StartExec sp u q)
    obtain rs w2 where rs: "exec_queue (Dispatch 1) (\<lambda>_. env) 1 q w (cctx c) = Some (rs, w2, ctx')"
        "v = Array rs" "log_write sp (Array rs) u [] ctx' w2 = w'"
      using f StartExec by (auto simp: finish_dispatch_def)
    let ?c = "c\<lparr>cctx := ctx'\<rparr>"
    have "solo_steps env (w, c\<lparr>cpc := Exec sp u q [] None\<rparr>) (w2, c\<lparr>cpc := Exec sp u [] ([] @ rs) None, cctx := ctx'\<rparr>)"
      by (rule solo_exec [OF env up, of _ _ _ 0 1]) (use x rs(1) StartExec in \<open>simp_all add: begun_ok_def\<close>)
    moreover have "solo_step env (w2, ?c\<lparr>cpc := Exec sp u [] rs None\<rparr>)
        (w2, ?c\<lparr>cpc := Running sp u [] (CallRet (Array rs))\<rparr>)"
      by (simp add: solo_step_def conn_step_def)
    moreover have "solo_steps env (w2, ?c\<lparr>cpc := Running sp u [] (CallRet (Array rs))\<rparr>) (w', ?c\<lparr>cpc := Reply v True\<rparr>)"
      using solo_running [where c = ?c and args = "[]" and u = u and sp = sp and env = env, of "CallRet (Array rs)" w2 v w2] rs(2,3)
      by (simp add: finished_def)
    ultimately show ?thesis
      using StartExec by (simp add: conn_upds)
  qed
qed

lemma solo_request:
  assumes env: "Runtime.truncate env = rt" and up: "upper_idem rt" and ok: "session_ok rt w (cctx c)"
    and pc: "cpc c = Ready" and read: "Read (cin c) = Inr (req, rest)"
    and run: "handle_request (\<lambda>_. env) w (cctx c) req = Some (v, b, w', ctx')"
  shows "solo_steps env (w, c) (w', c\<lparr>cpc := Reply v b, cctx := ctx', cin := rest\<rparr>)"
proof (cases "vType req \<noteq> TypeArray \<or> length (vElems req) = 0 \<or>
    InSubscriberMode (cctx c) (whub w) \<and> ToUpper env (vStr (hd (vElems req))) \<notin> set subscriberModeAllowed")
  case True
  then have "conn_step env True w c = Some (w', c\<lparr>cpc := Reply v b, cctx := ctx', cin := rest\<rparr>)"
    using run pc read by (auto simp: conn_step_def begin_request_def handle_request_def Let_def split: if_splits)
  then show ?thesis by (rule solo_first) simp
next
  case False
  let ?n = "ToUpper env (vStr (hd (vElems req)))" and ?as = "tl (vElems req)"
  have b: "b" and disp: "Dispatch (Suc 1) (\<lambda>_. env) w (cctx c) ?n ?as = Some (v, w', ctx')"
    using run False by (auto simp: handle_request_def Let_def numeral_2_eq_2 split: if_splits)
  obtain x w0 c0 where x: "dispatch_begin env w (cctx c) ?n ?as = Some (x, w0, c0)" "session_ok rt w0 c0"
      "begun_ok rt (whub w0) c0 x"
    using dispatch_begin_ok [OF env up ok] by blast
  have f: "finish_dispatch 1 env (x, w0, c0) = Some (v, w', ctx')"
    using disp x(1) by (simp add: Dispatch_begin [OF env up])
  let ?p = "case x of Replied v \<Rightarrow> Reply v True | Started sp u as c \<Rightarrow> Running sp u as c
      | StartExec sp u q \<Rightarrow> Exec sp u q [] None"
  have "conn_step env True w c = Some (w0, c\<lparr>cctx := c0, cin := rest, cpc := ?p\<rparr>)"
    using False pc read x(1) by (auto simp: conn_step_def begin_request_def conn_upds)
  then show ?thesis
    by (rule solo_first)
      (use solo_begun [OF env up, of w0 "c\<lparr>cctx := c0, cin := rest\<rparr>" x v w' ctx'] x(2,3) f b in \<open>simp add: conn_upds\<close>)
qed

end
