(* ===== verification/Races.thy ===== *)
theory Races
  imports Samples Sequential
begin

section \<open>Properties of the interleaved server\<close>

text \<open>
  What holds of every interleaving of the goroutines, and two runs that show what does not:
  the log of two connections in the wrong order, and a transaction that another client
  sees half done.
\<close>

subsection \<open>Two clients\<close>

text \<open>The server with two connections that have just been accepted.\<close>

definition two_clients :: "string \<Rightarrow> string \<Rightarrow> Sys" where
  "two_clients in1 in2 =
     (let (w1, c1) = conn_open True sample_world; (w2, c2) = conn_open True w1
      in \<lparr>world = w2,
          conns = fmupd 2 \<lparr>cctx = c2, cpc = Ready, cin = in2, cout = [], cfwd = FwdSelect\<rparr>
                    (fmupd 1 \<lparr>cctx = c1, cpc = Ready, cin = in1, cout = [], cfwd = FwdSelect\<rparr> fmempty),
          persists = True\<rparr>)"

lemma requests_safe: "list_all wire_ok reqs \<Longrightarrow> input_safe (requests reqs)"
proof (induction reqs)
  case Nil
  show ?case by (simp add: requests_def input_safe.simps [of "[]"] resp_codec.dec_empty)
next
  case (Cons r reqs)
  then have "Read (requests (r # reqs)) = Inr (r, requests reqs)" by (simp add: requests_def resp_codec.dec_enc)
  with Cons show ?case by (simp add: input_safe.simps [of "requests (r # reqs)"])
qed

lemma two_clients_reached:
  assumes "input_safe in1" "input_safe in2"
  shows "sys_run rt (sys_start True sample_world) [] (two_clients in1 in2)"
proof -
  obtain w1 c1 where 1: "conn_open True sample_world = (w1, c1)" by fastforce
  obtain w2 c2 where 2: "conn_open True w1 = (w2, c2)" by fastforce
  let ?s0 = "sys_start True sample_world"
  let ?s1 = "?s0\<lparr>world := w1, conns := fmupd 1 \<lparr>cctx = c1, cpc = Ready, cin = in1, cout = [], cfwd = FwdSelect\<rparr> (conns ?s0)\<rparr>"
  have "sys_step rt ?s0 None [] ?s1"
    by (rule accept) (use 1 assms in \<open>simp_all add: sys_start_def\<close>)
  from sys_snoc [OF sys_refl this] have r1: "sys_run rt ?s0 [] ?s1" by simp
  have "sys_step rt ?s1 None []
      (?s1\<lparr>world := w2, conns := fmupd 2 \<lparr>cctx = c2, cpc = Ready, cin = in2, cout = [], cfwd = FwdSelect\<rparr> (conns ?s1)\<rparr>)"
    by (rule accept) (use 2 assms in \<open>simp_all add: sys_start_def\<close>)
  from sys_snoc [OF r1 this] 1 2 show ?thesis by (simp add: two_clients_def sys_start_def)
qed

text \<open>The request loops run in the order of a schedule, with every write succeeding.\<close>

fun run_schedule :: "nat list \<Rightarrow> Sys \<Rightarrow> (event list \<times> Sys) option" where
  "run_schedule [] s = Some ([], s)"
| "run_schedule (i # is) s =
     (case fmlookup (conns s) i of
        None \<Rightarrow> None
      | Some c \<Rightarrow>
          (if cpc c = Done \<or> waits_mutex c then None
           else case conn_step (sample_env 0) True (world s) c of
               None \<Rightarrow> None
             | Some (w, c') \<Rightarrow>
                 map_option (\<lambda>(evs, s'). (step_events i c c' @ evs, s'))
                   (run_schedule is (s\<lparr>world := w, conns := fmupd i c' (conns s)\<rparr>))))"

lemma run_schedule_run:
  "sys_run sample_rt s0 evs s \<Longrightarrow> run_schedule is s = Some (evs', s') \<Longrightarrow> sys_run sample_rt s0 (evs @ evs') s'"
proof (induction "is" arbitrary: s evs evs')
  case (Cons i "is")
  then obtain c w c' evs1 where c: "fmlookup (conns s) i = Some c" "cpc c \<noteq> Done"
      "conn_step (sample_env 0) True (world s) c = Some (w, c')" "\<not> waits_mutex c"
      "run_schedule is (s\<lparr>world := w, conns := fmupd i c' (conns s)\<rparr>) = Some (evs1, s')"
      "evs' = step_events i c c' @ evs1"
    by (auto split: option.splits if_splits)
  have "Runtime.truncate (sample_env 0) = sample_rt"
    using sample_runtime(1) [of 0] by (simp add: same_runtime_def)
  from Cons.IH [OF sys_snoc [OF Cons.prems(1) request [OF c(1,2) this c(3,4)]] c(5)] c(6) show ?case by simp
qed auto

subsection \<open>Single steps on concrete requests\<close>

definition cmd :: "string list \<Rightarrow> Value" where
  "cmd ws = Array (map Bulk ws)"

lemma wire_ok_cmd: "list_all (\<lambda>w. length w \<le> 100) ws \<Longrightarrow> length ws \<le> 100 \<Longrightarrow> wire_ok (cmd ws)"
  by (auto simp: cmd_def value_defs list_all_iff maxAlloc_def sizeofValue_def intro: order_trans)

lemma Read_cmds:
  assumes "list_all (\<lambda>w. length w \<le> 100) ws" "length ws \<le> 100"
  shows "Read (requests (cmd ws # reqs)) = Inr (cmd ws, requests reqs)"
  using wire_ok_cmd [OF assms] by (simp add: requests_def resp_codec.dec_enc)

definition conn_in :: "bool \<Rightarrow> QueuedCommand list \<Rightarrow> nat \<Rightarrow> pc \<Rightarrow> Value list \<Rightarrow> string \<Rightarrow> Conn" where
  "conn_in tx q i p reqs out =
     \<lparr>cctx = NewContext\<lparr>OnWrite := True, sub := Some i, inTx := tx, queue := q\<rparr>, cpc = p, cin = requests reqs,
      cout = out, cfwd = FwdSelect\<rparr>"

abbreviation conn_at :: "nat \<Rightarrow> pc \<Rightarrow> Value list \<Rightarrow> string \<Rightarrow> Conn" where
  "conn_at \<equiv> conn_in False []"

text \<open>The hub after the two connections have got their inboxes.\<close>

definition hub2 :: Hub where
  "hub2 = snd (NewSubscriber (snd (NewSubscriber NewHub)))"

lemma hub2_quiet [simp]: "sub ctx = Some 1 \<or> sub ctx = Some 2 \<Longrightarrow> \<not> InSubscriberMode ctx hub2"
  by (auto simp: InSubscriberMode_def ChannelCount_def sub_channels_def hub2_def NewSubscriber_def NewHub_def
      fcard_fempty)

lemma two_clients_eq:
  "two_clients (requests r1) (requests r2) =
     \<lparr>world = \<lparr>wstore = New, whub = hub2, waof = []\<rparr>,
      conns = fmupd 2 (conn_at 2 Ready r2 []) (fmupd 1 (conn_at 1 Ready r1 []) fmempty), persists = True\<rparr>"
proof -
  have "nextID NewHub = 0" by (simp add: NewHub_def)
  then show ?thesis
    by (simp add: two_clients_def conn_open_def ctx_Subscriber_def NewContext_def NewSubscriber_def Let_def
        sample_world_def conn_in_def hub2_def numeral_2_eq_2)
qed

lemma conn_in_sel [simp]: "cpc (conn_in tx q i p reqs out) = p" "cout (conn_in tx q i p reqs out) = out"
    "\<not> waits_mutex (conn_in tx q i p reqs out)"
  by (simp_all add: conn_in_def waits_mutex_def split: pc.split)

lemma pending_conn_in [simp]:
  "pending (conn_in tx q i Ready reqs out) = []" "pending (conn_in tx q i (Reply v b) reqs out) = []"
  "pending (conn_in tx q i (Writing v b) reqs out) = []"
  "pending (conn_in tx q i (Exec sp' u' q' rs None) reqs out) = []"
  "pending (conn_in tx q i (Running sp u args (CallRet v)) reqs out) =
     (if SWrite sp \<and> vType v \<noteq> TypeError then [Bulk u # args] else [])"
  "pending (conn_in tx q i (Exec sp' u' q' rs (Some (sp, u, args, CallRet v))) reqs out) =
     (if SWrite sp \<and> vType v \<noteq> TypeError then [Bulk u # args] else [])"
  by (auto simp: pending_def conn_in_def log_due_def)

lemma step_read_store:
  assumes "i = 1 \<or> i = 2" "list_all (\<lambda>w. length w \<le> 100) (u # ws)" "length (u # ws) \<le> 100"
    and "ToUpper (sample_env 0) u = u" "fmlookup NewRegistry u = Some sp" "CheckArity sp (length ws)"
    and "SHandler sp = StoreHandler f" "f (sample_env 0) st (map Bulk ws) = Some (v, st')"
  shows "conn_step (sample_env 0) True \<lparr>wstore = st, whub = hub2, waof = log\<rparr> (conn_at i Ready (cmd (u # ws) # reqs) out) =
    Some (\<lparr>wstore = st', whub = hub2, waof = log\<rparr>, conn_at i (Running sp u (map Bulk ws) (CallRet v)) reqs out)"
proof -
  note read = Read_cmds [OF assms(2,3), of reqs]
  show ?thesis
    using assms read
    by (auto simp: conn_step_def conn_in_def begin_request_def dispatch_begin_def begin_call_def validate_def
        Lookup_def NewContext_def cmd_def Array_def Bulk_def Let_def)
qed

lemma step_reply:
  "conn_step (sample_env 0) True w (conn_in tx q i (Reply v b) reqs out) =
    Some (w, conn_in tx q i (Writing v b) reqs out)"
  "conn_step (sample_env 0) True w (conn_in tx q i (Writing v b) reqs out) =
    Some (w, conn_in tx q i Ready reqs (out @ Write v))"
  by (simp_all add: conn_step_def conn_in_def)

lemma step_log:
  "conn_step (sample_env 0) True \<lparr>wstore = st, whub = h, waof = log\<rparr> (conn_in tx q i (Running sp u args (CallRet v)) reqs out) =
    Some (\<lparr>wstore = st, whub = h,
            waof = (if SWrite sp \<and> vType v \<noteq> TypeError then aof_Append (Bulk u # args) log else log)\<rparr>,
          conn_in tx q i (Reply v True) reqs out)"
  by (simp add: conn_step_def conn_in_def log_write_def NewContext_def)

lemma set_cmd_plain:
  "set_cmd (sample_env t) st [Bulk k, Bulk v] = Some (OK, put k (string_entry v) st)"
  by (simp add: set_cmd_def arg_def Bulk_def finish_def reply_or_err_def Set_def no_options_def Let_def
      argStrings_def)

subsection \<open>The order of the log\<close>

definition race_schedule :: "nat list" where
  "race_schedule = [1, 2, 2, 1, 2, 2, 1, 1]"

abbreviation set_k :: "string \<Rightarrow> Value list" where
  "set_k v \<equiv> [Bulk ''SET'', Bulk ''k'', Bulk v]"

abbreviation race_events :: "event list" where
  "race_events \<equiv> [Committed 1 (set_k ''a''), Committed 2 (set_k ''b''), Logged 2 (set_k ''b''), Logged 1 (set_k ''a'')]"

lemma race_run:
  "\<exists>s. run_schedule race_schedule
       (two_clients (requests [cmd [''SET'', ''k'', ''a'']]) (requests [cmd [''SET'', ''k'', ''b'']])) =
       Some (race_events, s) \<and>
     wstore (world s) = put ''k'' (string_entry ''b'') (put ''k'' (string_entry ''a'') New) \<and>
     waof (world s) = aof_file [set_k ''b'', set_k ''a''] \<and>
     fmlookup (conns s) 1 = Some (conn_at 1 Ready [] (Write OK)) \<and>
     fmlookup (conns s) 2 = Some (conn_at 2 Ready [] (Write OK))"
  unfolding race_schedule_def two_clients_eq
  by (simp add: step_read_store [OF _ _ _ _ sample_lookups(5)] step_log step_reply sample_uppers set_cmd_plain argc_ge_def
      aof_Append_def step_events_def)

lemma race_reached:
  "\<exists>s. sys_run sample_rt (sys_start True sample_world) race_events s \<and>
     wstore (world s) = put ''k'' (string_entry ''b'') (put ''k'' (string_entry ''a'') New) \<and>
     waof (world s) = aof_file [set_k ''b'', set_k ''a''] \<and>
     fmlookup (conns s) 1 = Some (conn_at 1 Ready [] (Write OK)) \<and>
     fmlookup (conns s) 2 = Some (conn_at 2 Ready [] (Write OK))"
proof -
  have "input_safe (requests [cmd [''SET'', ''k'', v]])" if "length v \<le> 100" for v
    by (rule requests_safe) (use that in \<open>simp add: wire_ok_cmd\<close>)
  then have "sys_run sample_rt (sys_start True sample_world) []
      (two_clients (requests [cmd [''SET'', ''k'', ''a'']]) (requests [cmd [''SET'', ''k'', ''b'']]))"
    by (intro two_clients_reached) simp_all
  from run_schedule_run [OF this] race_run show ?thesis by fastforce
qed

lemma race_replay:
  "\<exists>w. server_New (\<lambda>_ _. sample_env t0) \<lparr>Addr = '':6379'', AOFPath = ''db.aof''\<rparr>
      (Some (aof_file [[Bulk ''SET'', Bulk ''k'', Bulk ''b''], [Bulk ''SET'', Bulk ''k'', Bulk ''a'']])) = Some (Inr w) \<and>
    wstore w = put ''k'' (string_entry ''a'') (put ''k'' (string_entry ''b'') New)"
proof -
  have ok: "list_all (\<lambda>c. wire_ok (Array c)) [[Bulk ''SET'', Bulk ''k'', Bulk ''b''], [Bulk ''SET'', Bulk ''k'', Bulk ''a'']]"
    by (simp add: value_defs maxAlloc_def sizeofValue_def)
  have set: "Dispatch 2 (\<lambda>_. sample_env t0) w NewContext ''SET'' [Bulk ''k'', Bulk v] =
      Some (OK, w\<lparr>wstore := put ''k'' (string_entry v) (wstore w)\<rparr>, NewContext)" for w v
    by (simp add: Dispatch.simps numeral_2_eq_2 NewContext_def validate_def Lookup_def sample_uppers sample_lookups
        argc_ge_def run_handler_def log_write_def set_cmd_plain)
  have vs: "vStr (Bulk s) = s" for s by (simp add: Bulk_def)
  show ?thesis
    by (simp add: server_New_def server_replay_def Replay_aof_file [OF ok] replay_fn_def set vs del: aof_file_Cons)
qed

text \<open>C15: The log can be in the wrong order: the hook appends to it after the handler has released the
  mutex of the store. In the run below client 1 sets a key, client 2 sets it again, and client 2 logs
  first. Both commands are committed, logged and answered with OK, nothing is left to do; the store has
  the value of client 2, and a restart on the log brings back the overwritten value of client 1.\<close>

theorem log_order_race:
  "\<exists>s c1 c2 w'. sys_run sample_rt (sys_start True sample_world)
       [Committed 1 (set_k ''a''), Committed 2 (set_k ''b''), Logged 2 (set_k ''b''), Logged 1 (set_k ''a'')] s \<and>
     fmlookup (conns s) 1 = Some c1 \<and> cpc c1 = Ready \<and> cout c1 = Write OK \<and>
     fmlookup (conns s) 2 = Some c2 \<and> cpc c2 = Ready \<and> cout c2 = Write OK \<and>
     Get (\<lambda>_. t) ''k'' (wstore (world s)) = Inr (Some ''b'') \<and>
     server_New (\<lambda>_ _. sample_env t0) \<lparr>Addr = '':6379'', AOFPath = ''db.aof''\<rparr> (Some (waof (world s))) = Some (Inr w') \<and>
     Get (\<lambda>_. t) ''k'' (wstore w') = Inr (Some ''a'')"
proof -
  obtain s where s: "sys_run sample_rt (sys_start True sample_world) race_events s"
      "wstore (world s) = put ''k'' (string_entry ''b'') (put ''k'' (string_entry ''a'') New)"
      "waof (world s) = aof_file [set_k ''b'', set_k ''a'']"
      "fmlookup (conns s) 1 = Some (conn_at 1 Ready [] (Write OK))"
      "fmlookup (conns s) 2 = Some (conn_at 2 Ready [] (Write OK))"
    using race_reached by blast
  obtain w' where w': "server_New (\<lambda>_ _. sample_env t0) \<lparr>Addr = '':6379'', AOFPath = ''db.aof''\<rparr>
      (Some (waof (world s))) = Some (Inr w')" "wstore w' = put ''k'' (string_entry ''a'') (put ''k'' (string_entry ''b'') New)"
    using race_replay s(3) by metis
  have "Get (\<lambda>_. t) ''k'' (put ''k'' (string_entry v) st) = Inr (Some v)" for v st
    by (simp add: Get_def stringOrWrongType_def expired_def IsZero_def)
  with s w' show ?thesis
    by (intro exI [of _ s] exI [of _ "conn_at 1 Ready [] (Write OK)"] exI [of _ "conn_at 2 Ready [] (Write OK)"] exI [of _ w']) simp
qed

subsection \<open>The isolation of a transaction\<close>

lemma step_multi:
  "i = 1 \<or> i = 2 \<Longrightarrow>
   conn_step (sample_env 0) True \<lparr>wstore = st, whub = hub2, waof = log\<rparr> (conn_at i Ready (cmd [''MULTI''] # reqs) out) =
    Some (\<lparr>wstore = st, whub = hub2, waof = log\<rparr>,
      conn_in True [] i (Running (exact ''MULTI'' (ConnHandler multi_cmd) 0) ''MULTI'' [] (CallRet OK)) reqs out)"
  using Read_cmds [of "[''MULTI'']" reqs]
  by (auto simp: conn_step_def conn_in_def begin_request_def dispatch_begin_def begin_call_def validate_def multi_cmd_def
      Lookup_def NewContext_def cmd_def Array_def Bulk_def sample_uppers sample_lookups argc_is_def Let_def)

lemma step_queue:
  assumes "i = 1 \<or> i = 2" "list_all (\<lambda>w. length w \<le> 100) (u # ws)" "length (u # ws) \<le> 100"
    and "ToUpper (sample_env 0) u = u" "fmlookup NewRegistry u = Some sp" "CheckArity sp (length ws)"
    and "u \<notin> set commandsBypassingQueue"
  shows "conn_step (sample_env 0) True \<lparr>wstore = st, whub = hub2, waof = log\<rparr>
      (conn_in True q i Ready (cmd (u # ws) # reqs) out) =
    Some (\<lparr>wstore = st, whub = hub2, waof = log\<rparr>,
      conn_in True (q @ [\<lparr>qName = u, qArgs = map Bulk ws\<rparr>]) i (Reply (Str ''QUEUED'') True) reqs out)"
  using assms Read_cmds [OF assms(2,3), of reqs]
  by (auto simp: conn_step_def conn_in_def begin_request_def dispatch_begin_def queueCommand_def validate_def
      Lookup_def NewContext_def cmd_def Array_def Bulk_def Let_def)

lemma step_exec_begin:
  "i = 1 \<or> i = 2 \<Longrightarrow>
   conn_step (sample_env 0) True \<lparr>wstore = st, whub = hub2, waof = log\<rparr> (conn_in True q i Ready (cmd [''EXEC''] # reqs) out) =
    Some (\<lparr>wstore = st, whub = hub2, waof = log\<rparr>,
      conn_at i (Exec (exact ''EXEC'' ExecHandler 0) ''EXEC'' q [] None) reqs out)"
  using Read_cmds [of "[''EXEC'']" reqs]
  by (auto simp: conn_step_def conn_in_def begin_request_def dispatch_begin_def validate_def commandsBypassingQueue_def
      Lookup_def NewContext_def cmd_def Array_def Bulk_def sample_uppers sample_lookups argc_is_def Let_def)

lemma step_exec_store:
  assumes "ToUpper (sample_env 0) u = u" "fmlookup NewRegistry u = Some sp" "CheckArity sp (length args)"
    and "SHandler sp = StoreHandler f" "f (sample_env 0) st args = Some (v, st')"
  shows "conn_step (sample_env 0) True \<lparr>wstore = st, whub = h, waof = log\<rparr>
      (conn_at i (Exec sp0 u0 (\<lparr>qName = u, qArgs = args\<rparr> # q) rs None) reqs out) =
    Some (\<lparr>wstore = st', whub = h, waof = log\<rparr>,
      conn_at i (Exec sp0 u0 q rs (Some (sp, u, args, CallRet v))) reqs out)"
  using assms
  by (auto simp: conn_step_def conn_in_def dispatch_begin_def begin_call_def validate_def Lookup_def NewContext_def)

lemma get_cmd_plain:
  "get_cmd (sample_env t) (put k (string_entry v) New) [Bulk k'] =
    Some (if k' = k then Bulk v else NullBulk, put k (string_entry v) New)"
  by (simp add: get_cmd_def arg_def Get_def stringOrWrongType_def expired_def IsZero_def Bulk_def opt_reply_def
      reply_or_err_def)

definition tx_schedule :: "nat list" where
  "tx_schedule = [1, 1, 1, 1, 1, 1, 1, 1, 1, 1, 1, 1, 2, 2, 2, 2, 2, 2, 2, 2]"

lemma tx_run:
  "\<exists>evs s c. run_schedule tx_schedule
       (two_clients (requests [cmd [''MULTI''], cmd [''SET'', ''a'', ''x''], cmd [''SET'', ''b'', ''x''], cmd [''EXEC'']])
         (requests [cmd [''GET'', ''a''], cmd [''GET'', ''b'']])) = Some (evs, s) \<and>
     fmlookup (conns s) 2 = Some c \<and> cout c = Write (Bulk ''x'') @ Write NullBulk"
  unfolding tx_schedule_def two_clients_eq
  by (simp add: step_read_store [OF _ _ _ _ sample_lookups(1)] step_multi step_queue [OF _ _ _ _ sample_lookups(5)]
      step_exec_begin step_exec_store [OF _ sample_lookups(5)] step_log step_reply sample_uppers set_cmd_plain
      argc_ge_def argc_is_def commandsBypassingQueue_def get_cmd_plain)

text \<open>C16: A transaction is not isolated: \<open>exec\<close> dispatches its commands one by one and holds no lock around
  them, so another client can read between two of them. One client sends MULTI, SET a x, SET b x and
  EXEC, another GET a and GET b, and the second gets the new value of a and no value for b, which no
  order of the transaction and the two reads gives.\<close>

theorem exec_not_isolated:
  "\<exists>evs s c. sys_run sample_rt
       (two_clients (requests [cmd [''MULTI''], cmd [''SET'', ''a'', ''x''], cmd [''SET'', ''b'', ''x''], cmd [''EXEC'']])
         (requests [cmd [''GET'', ''a''], cmd [''GET'', ''b'']])) evs s \<and>
     fmlookup (conns s) 2 = Some c \<and> cout c = Write (Bulk ''x'') @ Write NullBulk"
  using tx_run run_schedule_run [OF sys_refl] by blast

subsection \<open>What every interleaving keeps\<close>

lemma sample_world_ok: "world_ok sample_world"
  by (simp add: world_ok_def wf_New wf_NewHub)

text \<open>C7: Whatever the interleaving of connections, forwarders and sweeper, and whatever the clients send
  as long as no announced length exceeds what can be allocated: the store and the hub stay well-formed,
  and the next step of every connection, at any time and in any order of map iteration, returns without
  a panic.\<close>

theorem interleaving_safe:
  assumes "upper_idem rt" "world_ok w" "sys_run rt (sys_start aof w) evs s"
  shows "wf_store (wstore (world s)) \<and> wf_hub (whub (world s)) \<and>
    (\<forall>i c env wok. fmlookup (conns s) i = Some c \<longrightarrow> Runtime.truncate env = rt \<longrightarrow>
       conn_step env wok (world s) c \<noteq> None)"
proof -
  have ok: "sys_ok rt s" using sys_run_ok [OF assms(3,1) sys_start_ok [OF assms(2)]] by simp
  then have w: "world_ok (world s)" by (simp add: sys_ok_def)
  moreover have "conn_step env wok (world s) c \<noteq> None"
    if "fmlookup (conns s) i = Some c" "Runtime.truncate env = rt" for i c env wok
  proof -
    have "conn_ok rt (whub (world s)) c" using ok that(1) by (auto simp: sys_ok_def)
    from conn_step_ok [OF that(2) assms(1) this w, of wok] show ?thesis by auto
  qed
  ultimately show ?thesis by (auto simp: world_ok_def)
qed

theorem interleaving_safe_witness:
  "\<exists>evs s. sys_run sample_rt (sys_start True sample_world) evs s \<and> wstore (world s) \<noteq> New \<and>
     wf_store (wstore (world s)) \<and> wf_hub (whub (world s))"
proof -
  obtain evs s where s: "sys_run sample_rt (sys_start True sample_world) evs s"
      "wstore (world s) = put ''k'' (string_entry ''b'') (put ''k'' (string_entry ''a'') New)"
    using race_reached by blast
  have "put ''k'' (string_entry ''b'') (put ''k'' (string_entry ''a'') New) \<noteq> New" by (simp add: put_def New_def)
  with interleaving_safe [OF sample_upper sample_world_ok s(1)] s show ?thesis by metis
qed

text \<open>C2: Every reachable store is serialisable: with the log on, from any well-formed store and under
  every interleaving of connections, forwarders and sweeper, the store is the one that a serial server
  reaches that dispatches exactly the committed write commands, one after the other in the order of
  their critical sections, each at a time and with an order of map iteration, and sweeps between some
  of them. Expiry times may be set, and the sweeper may remove keys.\<close>

theorem store_serialisable:
  assumes "upper_idem rt" "world_ok w" "sys_run rt (sys_start True w) evs s"
  shows "\<exists>xs. serial xs (wstore w) = Some (wstore (world s)) \<and> commands xs = commits evs \<and>
    list_all (action_in rt) xs"
  using sys_run_serial [OF assms(3,1) sys_start_ok [OF assms(2)]] by (simp add: sys_start_def)

text \<open>A key is set for ten seconds, and later the sweeper removes it.\<close>

abbreviation setex_k :: "Value list" where
  "setex_k \<equiv> [Bulk ''SETEX'', Bulk ''k'', Bulk ''10'', Bulk ''v'']"

lemma ten_seconds: "FormatInt 10 = ''10''" "sint (10 * time_Second) = 10000000000"
  by (simp_all add: FormatInt_def nat_digits.simps digit_char_def time_Second_def char_of_def bit_iff_odd)

lemma expiry_reached:
  "\<exists>s. sys_run sample_rt (sys_start True sample_world) [Committed 1 setex_k] s \<and> sdata (wstore (world s)) = fmempty"
proof -
  let ?s = "two_clients (requests [cmd [''SETEX'', ''k'', ''10'', ''v'']]) (requests [])"
  have start: "sys_run sample_rt (sys_start True sample_world) [] ?s"
    by (intro two_clients_reached requests_safe) (simp_all add: wire_ok_cmd)
  define e where "e = (string_entry ''v'')\<lparr>expireAt := 10000000000\<rparr>"
  have "setEX_cmd (sample_env 0) New [Bulk ''k'', Bulk ''10'', Bulk ''v''] = Some (OK, put ''k'' e New)"
    using setEX_cmd_plain [of "sample_env 0" New "''k''" 10 "''v''"] by (simp add: ten_seconds e_def)
  then have "\<exists>s. run_schedule [1] ?s = Some ([Committed 1 setex_k], s) \<and> wstore (world s) = put ''k'' e New"
    unfolding two_clients_eq
    by (simp add: step_read_store [OF _ _ _ _ sample_lookups(3)] sample_uppers argc_is_def step_events_def)
  with run_schedule_run [OF start] obtain s where
    s: "sys_run sample_rt (sys_start True sample_world) [Committed 1 setex_k] s" "wstore (world s) = put ''k'' e New"
    by fastforce
  have "sdata (sweepExpired 10000000000 (put ''k'' e New)) = fmempty"
    by (rule fmap_ext) (auto simp: sweepExpired_def expired_def IsZero_def e_def New_def)
  with sys_snoc [OF s(1) sweep [of s sample_rt 10000000000]] s(2) show ?thesis
    by (intro exI [of _ "s\<lparr>world := (world s)\<lparr>wstore := sweepExpired 10000000000 (wstore (world s))\<rparr>\<rparr>"]) (simp add: New_def)
qed

theorem store_serialisable_witness:
  "\<exists>xs st. serial xs New = Some st \<and> sdata st = fmempty \<and> commands xs = [setex_k]"
proof -
  obtain s where s: "sys_run sample_rt (sys_start True sample_world) [Committed 1 setex_k] s" "sdata (wstore (world s)) = fmempty"
    using expiry_reached by blast
  have "commits [Committed 1 setex_k] = [setex_k]" by (simp add: commits_def)
  with store_serialisable [OF sample_upper sample_world_ok s(1)] s(2) sample_world_sel(1) show ?thesis by metis
qed

lemma race_durable:
  "list_all (durable_event sample_rt)
     [Committed 1 (set_k ''a''), Committed 2 (set_k ''b''), Logged 2 (set_k ''b''), Logged 1 (set_k ''a'')]"
  by (simp add: durable_event_def durable_cmd_def sets_ttl_def set_without_ttl_def value_defs maxAlloc_def
      sizeofValue_def argStrings_def no_options_def)

text \<open>C8: The log under every interleaving: it is what was there and then the commands in the order of
  their appends, and the commands of each connection stand in it in the order in which the connection
  committed them; a connection is at most one command behind, which it will append before it replies.\<close>

theorem log_per_connection:
  assumes "upper_idem rt" "world_ok w" "sys_run rt (sys_start aof w) evs s"
  shows "waof (world s) = fold aof_Append (logs evs) (waof w) \<and>
    commits (by_conn i evs) = logs (by_conn i evs) @ sys_pending s i \<and> length (sys_pending s i) \<le> 1"
proof -
  have "pending c = [] \<or> (\<exists>x. pending c = [x])" for c
    by (metis pendingE)
  then have "length (sys_pending s i) \<le> 1"
    by (auto simp: sys_pending_def split: option.split) (metis le_refl length_Cons list.size(3) le_0_eq One_nat_def zero_le)
  with sys_run_log [OF assms(3,1) sys_start_ok [OF assms(2)]] show ?thesis
    by (simp add: sys_start_def sys_pending_def)
qed

theorem log_per_connection_witness:
  "\<exists>evs s. commits (by_conn 1 evs) = [set_k ''a''] \<and> waof (world s) = fold aof_Append (logs evs) [] \<and>
     commits (by_conn 1 evs) = logs (by_conn 1 evs) @ sys_pending s 1"
proof -
  let ?evs = "[Committed 1 (set_k ''a''), Committed 2 (set_k ''b''), Logged 2 (set_k ''b''), Logged 1 (set_k ''a'')]"
  obtain s where s: "sys_run sample_rt (sys_start True sample_world) ?evs s" using race_reached by blast
  have "commits (by_conn 1 ?evs) = [set_k ''a'']" by (simp add: commits_def by_conn_def)
  with log_per_connection [OF sample_upper sample_world_ok s, of 1] sample_world_sel(3) show ?thesis by metis
qed

text \<open>C14: When the appends come in the order of the commits, the log is complete under concurrency, too:
  with no command waiting to be logged and no expiry times set, a server restarted on the log has the
  same store, whatever the interleaving was.\<close>

theorem concurrent_restart:
  assumes "upper_idem rt" "world_ok w" "wstore w = New" "waof w = []" "sys_run rt (sys_start True w) evs s"
    and "list_all (durable_event rt) evs" "logs evs = commits evs" "\<forall>n. same_runtime rt (es n)" "AOFPath cfg \<noteq> []"
  shows "server_New es cfg (Some (waof (world s))) =
    Some (Inr \<lparr>wstore = wstore (world s), whub = NewHub, waof = waof (world s)\<rparr>)"
proof -
  have "replays_to rt [] (wstore (world (sys_start True w)))"
    by (simp add: replays_to_def sys_start_def assms(3) ttl_intros)
  from sys_run_commit [OF assms(5,1) sys_start_ok [OF assms(2)] _ this assms(6)]
  have "replays_to rt (commits evs) (wstore (world s))" by (simp add: sys_start_def)
  moreover have "waof (world s) = aof_file (commits evs)"
    using sys_run_log [OF assms(5,1) sys_start_ok [OF assms(2)]] assms(4,7) by (simp add: sys_start_def aof_file_def)
  ultimately have "recoverable rt (world s)" by (auto simp: recoverable_def)
  from recoverable_restart [where es = es, OF this assms(8) [rule_format] assms(9)] show ?thesis .
qed

lemma order_run:
  "\<exists>s. sys_run sample_rt (sys_start True sample_world)
       [Committed 1 (set_k ''a''), Logged 1 (set_k ''a''), Committed 2 (set_k ''b''), Logged 2 (set_k ''b'')] s \<and>
     wstore (world s) = put ''k'' (string_entry ''b'') (put ''k'' (string_entry ''a'') New)"
proof -
  let ?s = "two_clients (requests [cmd [''SET'', ''k'', ''a'']]) (requests [cmd [''SET'', ''k'', ''b'']])"
  have "input_safe (requests [cmd [''SET'', ''k'', v]])" if "length v \<le> 100" for v
    by (rule requests_safe) (use that in \<open>simp add: wire_ok_cmd\<close>)
  then have start: "sys_run sample_rt (sys_start True sample_world) [] ?s"
    by (intro two_clients_reached) simp_all
  have "\<exists>s. run_schedule [1, 1, 2, 2] ?s =
      Some ([Committed 1 (set_k ''a''), Logged 1 (set_k ''a''), Committed 2 (set_k ''b''), Logged 2 (set_k ''b'')], s) \<and>
     wstore (world s) = put ''k'' (string_entry ''b'') (put ''k'' (string_entry ''a'') New)"
    unfolding two_clients_eq
    by (simp add: step_read_store [OF _ _ _ _ sample_lookups(5)] step_log sample_uppers set_cmd_plain argc_ge_def
        step_events_def)
  with run_schedule_run [OF start] show ?thesis by fastforce
qed

theorem concurrent_restart_witness:
  "\<exists>s :: Sys. wstore (world s) = put ''k'' (string_entry ''b'') (put ''k'' (string_entry ''a'') New) \<and>
     server_New (\<lambda>_ _. sample_env 9) \<lparr>Addr = '':6379'', AOFPath = ''db.aof''\<rparr> (Some (waof (world s))) =
       Some (Inr \<lparr>wstore = wstore (world s), whub = NewHub, waof = waof (world s)\<rparr>)"
proof -
  let ?evs = "[Committed 1 (set_k ''a''), Logged 1 (set_k ''a''), Committed 2 (set_k ''b''), Logged 2 (set_k ''b'')]"
  obtain s where s: "sys_run sample_rt (sys_start True sample_world) ?evs s"
      "wstore (world s) = put ''k'' (string_entry ''b'') (put ''k'' (string_entry ''a'') New)"
    using order_run by blast
  have "list_all (durable_event sample_rt) ?evs" using race_durable by (simp add: durable_event_def)
  moreover have "logs ?evs = commits ?evs" by (simp add: logs_def commits_def)
  ultimately have "server_New (\<lambda>_ _. sample_env 9) \<lparr>Addr = '':6379'', AOFPath = ''db.aof''\<rparr> (Some (waof (world s))) =
       Some (Inr \<lparr>wstore = wstore (world s), whub = NewHub, waof = waof (world s)\<rparr>)"
    by (intro concurrent_restart [OF sample_upper sample_world_ok sample_world_sel(1,3) s(1)]) simp_all
  with s(2) show ?thesis by blast
qed

subsection \<open>Requests\<close>

text \<open>C11: Every request is answered: take any infinite run in which the scheduler and the mutex are fair
  to a connection's request loop and in which no write to its socket lasts for ever, because its client
  reads or the connection breaks. Then the connection, once it has read a request, gets to the end of
  it, whatever the other connections, their clients, its forwarder and the sweeper do: it waits for
  the next request, or has begun to close. A client that does not read can hold up its own connection
  only: nothing is asked of the other clients.\<close>

theorem request_answered:
  assumes "infinite_run rt \<sigma> a" "fair_to i \<sigma> a" "client_reads i \<sigma>" "conn_busy i (\<sigma> n)"
  shows "\<exists>m\<ge>n. \<not> conn_busy i (\<sigma> m)"
  using fair_progress [OF assms] .

text \<open>A connection writes its last reply and closes; then only the sweeper runs.\<close>

definition last_conn :: "nat \<Rightarrow> Conn" where
  "last_conn n =
     (if n = 0 then conn_at 2 (Reply OK True) [] [] else if n = 1 then conn_at 2 (Writing OK True) [] []
      else if n = 2 then conn_at 2 Ready [] (Write OK) else if n = 3 then conn_at 2 (Closing []) [] (Write OK)
      else conn_at 2 Done [] (Write OK))"

definition last_reply :: "nat \<Rightarrow> Sys" where
  "last_reply n =
     \<lparr>world = \<lparr>wstore = New, whub = hub2, waof = []\<rparr>, conns = fmupd 2 (last_conn n) fmempty, persists = True\<rparr>"

lemma last_reply_sel [simp]: "fmlookup (conns (last_reply n)) 2 = Some (last_conn n)"
  by (simp add: last_reply_def)

lemma step_end:
  "conn_step (sample_env 0) True \<lparr>wstore = st, whub = hub2, waof = log\<rparr> (conn_at 2 Ready [] out) =
    Some (\<lparr>wstore = st, whub = hub2, waof = log\<rparr>, conn_at 2 (Closing []) [] out)"
  "conn_step (sample_env 0) True w (conn_at 2 (Closing []) [] out) = Some (w, conn_at 2 Done [] out)"
proof -
  have "Channels is hub2 2 = []" for "is"
    by (simp add: Channels_def sub_channels_def hub2_def NewSubscriber_def NewHub_def flip: set_empty)
  then show "conn_step (sample_env 0) True \<lparr>wstore = st, whub = hub2, waof = log\<rparr> (conn_at 2 Ready [] out) =
      Some (\<lparr>wstore = st, whub = hub2, waof = log\<rparr>, conn_at 2 (Closing []) [] out)"
    by (simp add: conn_step_def conn_in_def requests_def resp_codec.dec_empty begin_close_def NewContext_def)
qed (simp add: conn_step_def conn_in_def)

lemma last_reply_run: "infinite_run sample_rt last_reply (\<lambda>n. if n < 4 then Some 2 else None)"
proof -
  have rt: "Runtime.truncate (sample_env 0) = sample_rt" using sample_runtime(1) [of 0] by (simp add: same_runtime_def)
  have "\<exists>ev. sys_step sample_rt (last_reply n) (Some 2) ev (last_reply (Suc n))" if "n < 4" for n
  proof -
    from that consider "n = 0" | "n = 1" | "n = 2" | "n = 3" by linarith
    then have "conn_step (sample_env 0) True (world (last_reply n)) (last_conn n) =
        Some (world (last_reply n), last_conn (Suc n)) \<and> cpc (last_conn n) \<noteq> Done \<and> \<not> waits_mutex (last_conn n)"
      by cases (simp_all add: last_reply_def last_conn_def step_reply step_end)
    with request [OF last_reply_sel _ rt, of n True "world (last_reply n)" "last_conn (Suc n)"]
    have "sys_step sample_rt (last_reply n) (Some 2) (step_events 2 (last_conn n) (last_conn (Suc n)))
        ((last_reply n)\<lparr>world := world (last_reply n), conns := fmupd 2 (last_conn (Suc n)) (conns (last_reply n))\<rparr>)"
      by blast
    moreover have "(last_reply n)\<lparr>world := world (last_reply n), conns := fmupd 2 (last_conn (Suc n)) (conns (last_reply n))\<rparr> =
        last_reply (Suc n)" by (simp add: last_reply_def)
    ultimately show ?thesis by metis
  qed
  moreover have "sys_step sample_rt (last_reply n) None [] (last_reply (Suc n))" if "4 \<le> n" for n
    using sweep [of "last_reply n" sample_rt 0] sweep_no_ttl [OF no_ttl_New, of 0] that
    by (simp add: last_reply_def last_conn_def New_def)
  ultimately show ?thesis unfolding infinite_run_def by (metis not_le)
qed

theorem request_answered_witness:
  "\<exists>\<sigma> a. infinite_run sample_rt \<sigma> a \<and> fair_to 2 \<sigma> a \<and> client_reads 2 \<sigma> \<and> conn_busy 2 (\<sigma> 0) \<and>
     (\<exists>m\<ge>0. \<not> conn_busy 2 (\<sigma> m))"
proof -
  have "\<not> runnable 2 (last_reply n)" if "4 \<le> n" for n
    using that by (simp add: runnable_def last_conn_def)
  then have fair: "fair_to 2 last_reply (\<lambda>n. if n < 4 then Some 2 else None)" unfolding fair_to_def by blast
  have "\<not> loop_writes 2 (last_reply n)" if "2 \<le> n" for n using that by (simp add: loop_writes_def last_conn_def)
  moreover have "\<not> fwd_writes 2 (last_reply n)" for n by (simp add: fwd_writes_def last_conn_def conn_in_def)
  ultimately have reads: "client_reads 2 last_reply" unfolding client_reads_def by (meson nat_le_linear)
  have "conn_busy 2 (last_reply 0)" by (simp add: conn_busy_def last_conn_def)
  with request_answered [OF last_reply_run fair reads this] last_reply_run fair reads show ?thesis by blast
qed

text \<open>C10: With nobody else running, the steps of a connection from reading a request to its reply give the
  reply, store, hub, log and context that the request gives in one go in the sequential model: the
  calls that take several steps (SUBSCRIBE, UNSUBSCRIBE, PUBLISH), the hook and the loop of \<open>exec\<close> add
  up to \<open>Dispatch\<close>.\<close>

theorem request_steps:
  assumes "Runtime.truncate env = rt" "upper_idem rt" "session_ok rt w (cctx c)" "cpc c = Ready"
    and "Read (cin c) = Inr (req, rest)"
  shows "\<exists>v b w' ctx'. handle_request (\<lambda>_. env) w (cctx c) req = Some (v, b, w', ctx') \<and>
    (solo_step env)\<^sup>*\<^sup>* (w, c) (w', c\<lparr>cpc := Reply v b, cctx := ctx', cin := rest\<rparr>)"
proof -
  obtain v b w' ctx' where "handle_request (\<lambda>_. env) w (cctx c) req = Some (v, b, w', ctx')"
    using handle_request_ok [OF truncate_eqs(3) [OF assms(1)] assms(2,3)] by blast
  with solo_request [OF assms] show ?thesis by blast
qed

theorem request_steps_witness:
  "\<exists>v b w' ctx' c'. handle_request (\<lambda>_. sample_env 0) \<lparr>wstore = New, whub = hub2, waof = []\<rparr>
       (cctx (conn_at 1 Ready [cmd [''EXEC'']] [])) (cmd [''EXEC'']) = Some (v, b, w', ctx') \<and>
     (solo_step (sample_env 0))\<^sup>*\<^sup>*
       (\<lparr>wstore = New, whub = hub2, waof = []\<rparr>, conn_at 1 Ready [cmd [''EXEC'']] []) (w', c') \<and> cpc c' = Reply v b"
proof -
  have "Runtime.truncate (sample_env 0) = sample_rt" using sample_runtime(1) [of 0] by (simp add: same_runtime_def)
  moreover have "wf_hub hub2" unfolding hub2_def
    by (rule wf_NewSubscriber [OF wf_NewSubscriber [OF wf_NewHub prod.collapse [symmetric]] prod.collapse [symmetric]])
  then have "session_ok sample_rt \<lparr>wstore = New, whub = hub2, waof = []\<rparr> (cctx (conn_at 1 Ready [cmd [''EXEC'']] []))"
    by (simp add: session_ok_def wf_New conn_in_def NewContext_def sub_alloc_def hub2_def NewSubscriber_def NewHub_def)
  ultimately show ?thesis
    using request_steps [of "sample_env 0" sample_rt _ "conn_at 1 Ready [cmd [''EXEC'']] []" "cmd [''EXEC'']" "requests []"]
      Read_cmds [of "[''EXEC'']" "[]"]
    by (fastforce simp: conn_in_def)
qed

end
