(* ===== verification/AofFile.thy ===== *)
theory AofFile
  imports Aof StepSystem "HOL-Library.Sublist"
begin

section \<open>The life of the log file (internal/aof)\<close>

text \<open>
  The file with what the disk holds of it: \<open>content\<close> is what a reader of the file sees,
  \<open>durable\<close> the length of the prefix that the last \<open>fsync\<close> has made safe. \<open>aof_step\<close> is
  the step relation of an open file: \<open>Append\<close>, the rounds of \<open>syncLoop\<close> and \<open>Close\<close> run
  in any order, as their goroutines do. A crash keeps some prefix of the content that is
  at least as long as the durable one.
\<close>

subsection \<open>Definitions\<close>

record Disk =
  content :: string
  durable :: nat

text \<open>\<open>syncing\<close> is whether the goroutine of \<open>syncLoop\<close> is still in its loop.\<close>

record AOF =
  disk :: Disk
  closed :: bool
  stopSync :: bool
  syncing :: bool

text \<open>\<open>os.OpenFile\<close> with \<open>O_CREATE\<close>: \<open>found\<close> is the file, \<open>None\<close> an error.\<close>

definition aof_Open :: "Disk option \<Rightarrow> AOF option" where
  "aof_Open found =
     (case found of
        None \<Rightarrow> None
      | Some d \<Rightarrow> Some \<lparr>disk = d, closed = False, stopSync = False, syncing = True\<rparr>)"

text \<open>
  \<open>os.File.Write\<close> of a frame, of which the system takes at most \<open>n\<close> bytes; the flag is
  whether the call returns an error.
\<close>

definition file_Write :: "nat \<Rightarrow> string \<Rightarrow> AOF \<Rightarrow> bool \<times> AOF" where
  "file_Write n bytes a =
     (if closed a then (True, a)
      else (n < length bytes, a\<lparr>disk := (disk a)\<lparr>content := content (disk a) @ take n bytes\<rparr>\<rparr>))"

definition AOF_Append :: "nat \<Rightarrow> Value list \<Rightarrow> AOF \<Rightarrow> bool \<times> AOF" where
  "AOF_Append n args a = file_Write n (Marshal (Array args)) a"

text \<open>
  One round of \<open>syncLoop\<close>, by the case that \<open>select\<close> takes; \<open>None\<close> if it is not ready. The
  flag of \<open>Tick\<close> is whether the disk takes the data; the loop ignores the error of \<open>Sync\<close>.
\<close>

datatype sync_case = StopSync | Tick bool

fun syncLoop :: "sync_case \<Rightarrow> AOF \<Rightarrow> AOF option" where
  "syncLoop StopSync a = (if syncing a \<and> stopSync a then Some (a\<lparr>syncing := False\<rparr>) else None)"
| "syncLoop (Tick ok) a =
     (if syncing a
      then Some (if closed a \<or> \<not> ok then a
                 else a\<lparr>disk := (disk a)\<lparr>durable := length (content (disk a))\<rparr>\<rparr>)
      else None)"

text \<open>\<open>Close\<close> fails if the file is closed already, or if the system reports an error (\<open>ioerr\<close>).\<close>

definition aof_Close :: "bool \<Rightarrow> AOF \<Rightarrow> bool \<times> AOF" where
  "aof_Close ioerr a = (closed a \<or> ioerr, a\<lparr>stopSync := True, closed := True\<rparr>)"

text \<open>The steps, labelled by what they do; \<open>Wrote\<close> is an append that was written in full.\<close>

datatype aof_label = Wrote "Value list" | Failed "Value list" | Synced | Loop | Closed

inductive aof_step :: "AOF \<Rightarrow> aof_label \<Rightarrow> AOF \<Rightarrow> bool" where
  wrote: "AOF_Append n args a = (False, a') \<Longrightarrow> aof_step a (Wrote args) a'"
| failed: "AOF_Append n args a = (True, a') \<Longrightarrow> aof_step a (Failed args) a'"
| tick: "syncLoop (Tick ok) a = Some a' \<Longrightarrow> aof_step a (if closed a \<or> \<not> ok then Loop else Synced) a'"
| stop: "syncLoop StopSync a = Some a' \<Longrightarrow> aof_step a Loop a'"
| close: "aof_Close ioerr a = (e, a') \<Longrightarrow> aof_step a Closed a'"

inductive aof_run :: "AOF \<Rightarrow> aof_label list \<Rightarrow> AOF \<Rightarrow> bool" where
  run_refl: "aof_run a [] a"
| run_step: "aof_run a ls a1 \<Longrightarrow> aof_step a1 l a2 \<Longrightarrow> aof_run a (ls @ [l]) a2"

text \<open>What a crash leaves of the file.\<close>

definition crash :: "nat \<Rightarrow> Disk \<Rightarrow> Disk" where
  "crash k d = \<lparr>content = take k (content d), durable = length (take k (content d))\<rparr>"

text \<open>The commands written in a run, and those written before its last \<open>fsync\<close>.\<close>

definition written :: "aof_label list \<Rightarrow> Value list list" where
  "written ls = concat (map (\<lambda>l. case l of Wrote c \<Rightarrow> [c] | _ \<Rightarrow> []) ls)"

definition synced :: "aof_label list \<Rightarrow> Value list list" where
  "synced ls = written (rev (dropWhile (\<lambda>l. l \<noteq> Synced) (rev ls)))"

subsection \<open>Reading a torn frame\<close>

text \<open>The errors of a reader that runs into the end of the file.\<close>

definition torn :: "'a read_result \<Rightarrow> bool" where
  "torn r \<longleftrightarrow> r = Inl EOF \<or> r = Inl UnexpectedEOF"

lemma torn_Inr [simp]: "\<not> torn (Inr x)"
  by (simp add: torn_def)

lemma ReadString_no_newline: "CHR 0x0A \<notin> set s \<Longrightarrow> ReadString s = None"
  by (induction s) auto

lemma strict_prefix_line:
  assumes "CHR 0x0A \<notin> set l" "l @ crlf = p @ q" "q \<noteq> []"
  shows "CHR 0x0A \<notin> set p"
proof -
  obtain r c where "q = r @ [c]" using assms(3) by (cases q rule: rev_cases) auto
  with assms(2) have "p @ r = l @ [CHR 0x0D]" by (simp add: crlf_def)
  with assms(1) have "CHR 0x0A \<notin> set (p @ r)" by simp
  then show ?thesis by simp
qed

lemma readLine_torn:
  assumes "CHR 0x0A \<notin> set l" "l @ crlf = p @ q" "q \<noteq> []"
  shows "readLine p = Inl EOF"
  using strict_prefix_line [OF assms] by (simp add: readLine_def ReadString_no_newline)

text \<open>A cut of \<open>a @ b\<close> that leaves something is either inside \<open>a\<close> or behind it.\<close>

lemma append_cut_cases:
  assumes "a @ b = p @ q"
  obtains (left) u where "a = p @ u" "u \<noteq> []" | (right) p' where "p = a @ p'" "b = p' @ q"
proof -
  from assms obtain us where "a = p @ us \<and> us @ b = q \<or> a @ us = p \<and> b = us @ q"
    by (auto simp: append_eq_append_conv2)
  then show thesis using left right by (cases "us = []") auto
qed

lemma readElems_torn:
  assumes "concat (map enc es) = p @ q" "q \<noteq> []"
    and "\<And>v rest. v \<in> set es \<Longrightarrow> rd (enc v @ rest) = Inr (v, rest)"
    and "\<And>v p q. v \<in> set es \<Longrightarrow> enc v = p @ q \<Longrightarrow> q \<noteq> [] \<Longrightarrow> torn (rd p)"
  shows "torn (readElems rd (length es) p)"
  using assms
proof (induction es arbitrary: p)
  case (Cons v es)
  from Cons.prems(1) have "enc v @ concat (map enc es) = p @ q" by simp
  then show ?case
  proof (cases rule: append_cut_cases)
    case (left u)
    then have "torn (rd p)" using Cons.prems(4) [of v p u] by simp
    then show ?thesis by (auto simp: torn_def)
  next
    case (right p')
    moreover have "torn (readElems rd (length es) p')"
      by (rule Cons.IH [OF right(2) Cons.prems(2)]) (auto intro: Cons.prems(3,4))
    moreover have "rd (enc v @ p') = Inr (v, p')" using Cons.prems(3) by simp
    ultimately show ?thesis by (auto simp: torn_def)
  qed
qed simp

lemma readInteger_torn:
  assumes "CHR 0x0A \<notin> set l" "l @ crlf = p @ q" "q \<noteq> []"
  shows "readInteger p = Inl EOF"
  using readLine_torn [OF assms] by (simp add: readInteger_def)

lemma readBulk_torn:
  assumes "Itoa (length s) @ crlf @ s @ crlf = p @ q" "q \<noteq> []" "length s \<le> maxAlloc"
  shows "torn (readBulk p)"
proof -
  from assms(1) have "(Itoa (length s) @ crlf) @ s @ crlf = p @ q" by simp
  then show ?thesis
  proof (cases rule: append_cut_cases)
    case (left u)
    then have "readInteger p = Inl EOF" using readInteger_torn [OF Itoa_no_newline] by simp
    then show ?thesis by (simp add: readBulk_def torn_def)
  next
    case (right p')
    then have p: "readInteger p = Inr (of_nat (length s), p')"
      using readInteger_Itoa assms(3) by simp
    from right(2) show ?thesis
    proof (cases rule: append_cut_cases)
      case (left u)
      then have "length p' < length s" by simp
      with p assms(3) show ?thesis by (auto simp: readBulk_def torn_def ReadFull_def sint_of_nat_alloc)
    next
      case (right p'')
      then have "readLine p'' = Inl EOF" using readLine_torn [of "[]" p'' q] assms(2) by simp
      with p right(1) assms(3) show ?thesis
        by (simp add: readBulk_def torn_def ReadFull_def sint_of_nat_alloc)
    qed
  qed
qed

lemma readArray_torn:
  assumes "Itoa (length es) @ crlf @ concat (map enc es) = p @ q" "q \<noteq> []"
    and "sizeofValue * length es \<le> maxAlloc"
    and "\<And>v rest. v \<in> set es \<Longrightarrow> rd (enc v @ rest) = Inr (v, rest)"
    and "\<And>v p q. v \<in> set es \<Longrightarrow> enc v = p @ q \<Longrightarrow> q \<noteq> [] \<Longrightarrow> torn (rd p)"
  shows "torn (readArray rd p)"
proof -
  from assms(1) have "(Itoa (length es) @ crlf) @ concat (map enc es) = p @ q" by simp
  then show ?thesis
  proof (cases rule: append_cut_cases)
    case (left u)
    then have "readInteger p = Inl EOF" using readInteger_torn [OF Itoa_no_newline] by simp
    then show ?thesis by (simp add: readArray_def torn_def)
  next
    case (right p')
    have "torn (readElems rd (length es) p')"
      by (rule readElems_torn [OF right(2) assms(2)]) (auto intro: assms(4,5))
    with right(1) assms(3) show ?thesis
      by (auto simp: readArray_def torn_def readInteger_Itoa sizeofValue_le sint_of_nat_alloc)
  qed
qed

text \<open>A frame cut at its type byte is an end of file; otherwise the rest of it is cut.\<close>

lemma Read_flat_torn:
  assumes ok: "wire_ok (Value t s n es null multi)" and flat: "\<not> (t = TypeArray \<and> \<not> null)"
    and cut: "Marshal (Value t s n es null multi) = (c # p) @ q" "q \<noteq> []"
  shows "torn (Read_fuel (Suc g) (c # p))"
proof -
  note line = readLine_torn [of s p q, OF _ _ cut(2)]
  note int = readInteger_torn [of _ p q, OF _ _ cut(2)]
  consider "t = TypeSimpleString \<or> t = TypeError" "CHR 0x0A \<notin> set s" | "t = TypeInteger"
    | "t = TypeBulk" "null" | "t = TypeBulk" "\<not> null" "length s \<le> maxAlloc" | "t = TypeArray" "null"
    using flat ok by (auto split: if_splits)
  then show ?thesis
  proof cases
    case 1
    with cut(1) line show ?thesis by (auto simp: marshalLine_def torn_def)
  next
    case 2
    with cut(1) int [OF FormatInt_no_newline] show ?thesis by (auto simp: marshalLine_def torn_def)
  next
    case 3
    with cut(1) int [of "''-1''"] show ?thesis by (auto simp: readBulk_def torn_def)
  next
    case 4
    with cut readBulk_torn [of s p q] show ?thesis by (auto simp: marshalBulk_def)
  next
    case 5
    with cut(1) int [of "''-1''"] show ?thesis by (auto simp: readArray_def torn_def)
  qed
qed

lemma Read_array_torn:
  assumes ok: "wire_ok (Value TypeArray s n es False multi)"
    and cut: "Marshal (Value TypeArray s n es False multi) = (c # p) @ q" "q \<noteq> []"
    and fuel: "length (Marshal (Value TypeArray s n es False multi)) \<le> Suc g"
    and elem: "\<And>v p q. v \<in> set es \<Longrightarrow> wire_ok v \<Longrightarrow> Marshal v = p @ q \<Longrightarrow> q \<noteq> [] \<Longrightarrow>
      length (Marshal v) \<le> g \<Longrightarrow> torn (Read_fuel g p)"
  shows "torn (Read_fuel (Suc g) (c # p))"
proof -
  have le: "wire_ok v" "length (Marshal v) \<le> g" if "v \<in> set es" for v
  proof -
    show "wire_ok v" using that ok by (auto simp: list_all_iff)
    have "length (Marshal v) \<le> length (concat (map Marshal es))"
      using that by (auto simp: length_concat intro: member_le_sum_list)
    then show "length (Marshal v) \<le> g" using fuel by (simp add: marshalArray_def)
  qed
  have "torn (readArray (Read_fuel g) p)"
  proof (rule readArray_torn)
    show "Itoa (length es) @ crlf @ concat (map Marshal es) = p @ q"
      using cut(1) by (simp add: marshalArray_def)
    show "torn (Read_fuel g p)" if "v \<in> set es" "Marshal v = p @ q" "q \<noteq> []" for v p q
      using elem [OF that(1) le(1) that(2,3) le(2)] that(1) by blast
  qed (use ok cut(2) le in \<open>auto intro: Read_fuel_Marshal\<close>)
  with cut show ?thesis by (simp add: marshalArray_def)
qed

lemma Read_fuel_torn:
  "wire_ok v \<Longrightarrow> Marshal v = p @ q \<Longrightarrow> q \<noteq> [] \<Longrightarrow> length (Marshal v) \<le> f \<Longrightarrow> torn (Read_fuel f p)"
proof (induction v arbitrary: f p q)
  case (Value t s n es null multi)
  then obtain g where f: "f = Suc g"
    by (cases f) auto
  show ?case
  proof (cases p)
    case Nil
    then show ?thesis by (simp add: f torn_def)
  next
    case p: (Cons c p')
    show ?thesis
    proof (cases "t = TypeArray \<and> \<not> null")
      case True
      then have t: "t = TypeArray" "null = False" by simp_all
      show ?thesis
        using Read_array_torn [OF Value.prems(1,2) [unfolded t p] Value.prems(3) Value.prems(4) [unfolded t f] Value.IH]
        unfolding p f .
    next
      case False
      show ?thesis unfolding p f
        by (rule Read_flat_torn [OF Value.prems(1) False Value.prems(2) [unfolded p] Value.prems(3)])
    qed
  qed
qed

lemma Read_torn:
  assumes "wire_ok v" "Marshal v = p @ q" "q \<noteq> []"
  shows "Read p = Inl EOF \<or> Read p = Inl UnexpectedEOF"
proof -
  have "torn (Read_fuel (Suc (length (Marshal v))) p)" by (rule Read_fuel_torn [OF assms]) simp
  moreover have "Read_fuel (Suc (length (Marshal v))) p = Read p"
    unfolding Read_def by (rule Read_fuel_enough) (simp_all add: assms(2))
  ultimately show ?thesis by (simp add: torn_def)
qed

subsection \<open>The steps of the file\<close>

lemmas aof_defs = AOF_Append_def file_Write_def aof_Close_def

inductive_cases aof_stepE:
  "aof_step a (Wrote c) a'" "aof_step a (Failed c) a'" "aof_step a Synced a'" "aof_step a Loop a'"
  "aof_step a Closed a'"

lemma written_simps [simp]:
  "written [] = []" "written (ls @ [l]) = written ls @ (case l of Wrote c \<Rightarrow> [c] | _ \<Rightarrow> [])"
  by (simp_all add: written_def)

lemma synced_simps [simp]:
  "synced [] = []" "synced (ls @ [l]) = (if l = Synced then written ls else synced ls)"
  by (simp_all add: synced_def)

lemma aof_step_disk:
  assumes "aof_step a l a'"
  shows "case l of
      Wrote c \<Rightarrow> content (disk a') = aof_Append c (content (disk a)) \<and> durable (disk a') = durable (disk a)
    | Failed c \<Rightarrow> prefix (content (disk a)) (content (disk a')) \<and> durable (disk a') = durable (disk a)
    | Synced \<Rightarrow> content (disk a') = content (disk a) \<and> durable (disk a') = length (content (disk a))
    | _ \<Rightarrow> disk a' = disk a"
  using assms
  by cases (auto simp: aof_defs aof_Append_def split: if_splits)

text \<open>
  The invariant of an open file, and what a run can only move forward: the content grows
  at its end, failed writes included, and what is durable stays durable.
\<close>

interpretation aof: step_system aof_step aof_run "[]" "\<lambda>ls l. ls @ [l]"
  "\<lambda>a. durable (disk a) \<le> length (content (disk a))"
proof
  show "aof_run s t s' \<Longrightarrow> P [] s \<Longrightarrow>
      (\<And>t l s1 s2. aof_run s t s1 \<Longrightarrow> P t s1 \<Longrightarrow> aof_step s1 l s2 \<Longrightarrow> P (t @ [l]) s2) \<Longrightarrow> P t s'" for s t s' P
    by (induction rule: aof_run.induct) blast+
  show "durable (disk s') \<le> length (content (disk s'))"
    if "aof_step s l s'" "durable (disk s) \<le> length (content (disk s))" for s l s'
    using aof_step_disk [OF that(1)] that(2)
    by (cases l) (auto simp: aof_Append_def dest: prefix_length_le)
qed

lemma aof_run_grows:
  assumes "aof_run a ls a'" "durable (disk a) \<le> length (content (disk a))"
  shows "prefix (content (disk a)) (content (disk a')) \<and> durable (disk a) \<le> durable (disk a')"
proof (rule aof.run_mono [OF assms])
  show "prefix (content (disk s)) (content (disk s')) \<and> durable (disk s) \<le> durable (disk s')"
    if "durable (disk s) \<le> length (content (disk s))" "aof_step s l s'" for s l s'
    using aof_step_disk [OF that(2)] that(1) by (cases l) (auto simp: aof_Append_def)
qed (auto intro!: reflpI transpI dest: prefix_order.trans)

text \<open>
  While no write falls short, the content is the log of the commands written, and what
  \<open>fsync\<close> made safe reaches at least to the end of the last command synced.
\<close>

lemma aof_run_disk:
  assumes "aof_run a ls a'" "list_all (\<lambda>l. case l of Failed _ \<Rightarrow> False | _ \<Rightarrow> True) ls"
    and "content (disk a) = aof_file cs" "durable (disk a) = length (content (disk a))"
  shows "content (disk a') = aof_file (cs @ written ls) \<and>
    durable (disk a') = length (aof_file (cs @ synced ls))"
  using assms
proof (induction rule: aof_run.induct)
  case (run_step a ls a1 l a2)
  then have "content (disk a1) = aof_file (cs @ written ls) \<and>
    durable (disk a1) = length (aof_file (cs @ synced ls))"
    by simp
  then show ?case
    using aof_step_disk [OF run_step.hyps(2)] run_step.prems(1)
    by (cases l) (auto simp: aof_file_snoc)
qed simp

lemma prefix_synced: "prefix (synced ls) (written ls)"
proof (induction ls rule: rev_induct)
  case (snoc l ls)
  then show ?case by (cases l) (auto intro: prefix_append [THEN iffD2])
qed simp

text \<open>The steps after \<open>Close\<close> leave the file alone.\<close>

lemma aof_step_closed:
  assumes "aof_step a l a'" "closed a"
  shows "closed a' \<and> disk a' = disk a \<and> (\<forall>c. l \<noteq> Wrote c)"
  using assms by cases (auto simp: aof_defs split: if_splits)

subsection \<open>Replaying the file after a crash\<close>

text \<open>A cut of the log is whole commands and a strict prefix of the next one.\<close>

lemma take_aof_file:
  obtains (whole) es where "prefix es cs" "take k (aof_file cs) = aof_file es"
    | (cut) es c p q where "prefix (es @ [c]) cs" "take k (aof_file cs) = aof_file es @ p"
      "Marshal (Array c) = p @ q" "q \<noteq> []"
proof (induction cs arbitrary: k thesis)
  case Nil
  show ?case by (rule Nil(1) [of "[]"]) auto
next
  case (Cons c cs)
  show ?case
  proof (cases "k < length (Marshal (Array c))")
    case True
    show ?thesis
      by (rule Cons.prems(2) [of "[]" c "take k (Marshal (Array c))" "drop k (Marshal (Array c))"])
        (use True in auto)
  next
    case False
    then have take: "take k (aof_file (c # cs)) =
        Marshal (Array c) @ take (k - length (Marshal (Array c))) (aof_file cs)" by simp
    show ?thesis
      by (rule Cons.IH [where k = "k - length (Marshal (Array c))"])
        (use take Cons.prems(1) [of "c # _"] Cons.prems(2) [of "c # _"] in \<open>force+\<close>)
  qed
qed

lemma Replay_torn:
  assumes "list_all (\<lambda>c. wire_ok (Array c)) es" "wire_ok (Array c)" "Marshal (Array c) = p @ q" "q \<noteq> []"
  shows "\<exists>r. (r = ReplayDone \<or> r = ReadFailed UnexpectedEOF) \<and>
    Replay fn (aof_file es @ p) st =
      (case run_all fn es st of Some (ReplayDone, st') \<Rightarrow> Some (r, st') | x \<Rightarrow> x)"
proof (rule exI [of _ "if Read p = Inl EOF then ReplayDone else ReadFailed UnexpectedEOF"], intro conjI)
  have "Replay fn p st' = Some (if Read p = Inl EOF then ReplayDone else ReadFailed UnexpectedEOF, st')"
    for st'
    using Read_torn [OF assms(2-4)] by (auto simp: Replay.simps [of fn p])
  then show "Replay fn (aof_file es @ p) st =
      (case run_all fn es st of
         Some (ReplayDone, st') \<Rightarrow> Some (if Read p = Inl EOF then ReplayDone else ReadFailed UnexpectedEOF, st')
       | x \<Rightarrow> x)"
    by (auto simp: Replay_append [OF assms(1)] split: option.split prod.split replay_end.split)
qed simp

text \<open>What a replay makes of any cut of a log behind the commands \<open>cs\<close>.\<close>

lemma Replay_cut:
  assumes "list_all (\<lambda>c. wire_ok (Array c)) (cs @ ds)" "length (aof_file cs) \<le> k"
  shows "\<exists>es r. prefix es ds \<and> (r = ReplayDone \<or> r = ReadFailed UnexpectedEOF) \<and>
    Replay fn (take k (aof_file (cs @ ds))) st =
      (case run_all fn (cs @ es) st of Some (ReplayDone, st') \<Rightarrow> Some (r, st') | x \<Rightarrow> x)"
proof -
  have bytes: "take k (aof_file (cs @ ds)) = aof_file cs @ take (k - length (aof_file cs)) (aof_file ds)"
    using assms(2) by (simp add: aof_file_append)
  show ?thesis
  proof (cases rule: take_aof_file [of ds "k - length (aof_file cs)"])
    case (whole es)
    then have ok: "list_all (\<lambda>c. wire_ok (Array c)) (cs @ es)"
      using assms(1) by (auto simp: prefix_def)
    have "Replay fn (take k (aof_file (cs @ ds))) st = run_all fn (cs @ es) st"
      using whole(2) by (simp add: bytes Replay_aof_file [OF ok] flip: aof_file_append)
    with whole(1) show ?thesis
      by (intro exI [of _ es] exI [of _ ReplayDone]) (auto split: option.split prod.split replay_end.split)
  next
    case (cut es c p q)
    then have ok: "list_all (\<lambda>c. wire_ok (Array c)) (cs @ es)" "wire_ok (Array c)"
      using assms(1) by (auto simp: prefix_def)
    from cut(1) have "prefix es ds" by (auto simp: prefix_def)
    moreover have "take k (aof_file (cs @ ds)) = aof_file (cs @ es) @ p"
      using cut(2) unfolding bytes by (simp add: aof_file_append)
    ultimately show ?thesis using Replay_torn [OF ok cut(3,4), of fn st] by auto
  qed
qed

text \<open>
  The frame that a crash tore behind its length and some elements: the reader takes what
  follows for the missing elements.
\<close>

definition array_head :: "nat \<Rightarrow> Value list \<Rightarrow> string" where
  "array_head n xs = CHR ''*'' # Itoa n @ crlf @ concat (map Marshal xs)"

lemma readElems_short:
  assumes "\<And>v rest. v \<in> set xs \<Longrightarrow> rd (enc v @ rest) = Inr (v, rest)" "rd s = Inl e" "length xs < n"
  shows "readElems rd n (concat (map enc xs) @ s) = Inl e"
  using assms
proof (induction xs arbitrary: n)
  case (Cons v xs)
  then show ?case by (cases n) auto
qed (auto elim: less_natE)

lemma Read_array_head:
  assumes "list_all wire_ok xs" "length xs < n" "sizeofValue * n \<le> maxAlloc" "Read s = Inl e" "e \<noteq> MakeslicePanic"
  shows "Read (array_head n xs @ s) = Inl e"
proof -
  let ?g = "length (array_head n xs @ s)"
  have "readElems (Read_fuel ?g) n (concat (map Marshal xs) @ s) = Inl e"
  proof (rule readElems_short)
    show "Read_fuel ?g (Marshal v @ rest) = Inr (v, rest)" if "v \<in> set xs" for v rest
    proof (rule Read_fuel_Marshal)
      show "wire_ok v" using that assms(1) by (simp add: list_all_iff)
      have "length (Marshal v) \<le> length (concat (map Marshal xs))"
        using that by (auto simp: length_concat intro: member_le_sum_list)
      then show "length (Marshal v) \<le> ?g" by (simp add: array_head_def)
    qed
    have "Read_fuel ?g s = Read s"
      unfolding Read_def by (rule Read_fuel_enough) (simp_all add: array_head_def)
    with assms(4) show "Read_fuel ?g s = Inl e" by simp
  qed fact
  with assms(3) show ?thesis
    by (simp add: Read_def array_head_def readArray_def readInteger_Itoa sizeofValue_le sint_of_nat_alloc)
qed

lemma aof_file_Marshal: "aof_file ds = concat (map Marshal (map Array ds))"
  by (induction ds) simp_all

subsection \<open>Properties\<close>

text \<open>C4: Durability: open a log that replays the commands \<open>cs\<close>, let appends, rounds of the fsync loop
  and closes run in any order as long as no write falls short, and crash at any moment, keeping any
  number of bytes above the synced ones. The replay of what is left runs \<open>cs\<close>, all commands written
  before the last fsync that succeeded, and some of the later ones in their order; then it ends as a complete log
  does, or with an unexpected end of file.\<close>

theorem crash_keeps_synced:
  assumes "aof_Open (Some d) = Some a" "content d = aof_file cs" "durable d = length (content d)"
    and "aof_run a ls a'" "list_all (\<lambda>l. case l of Failed _ \<Rightarrow> False | _ \<Rightarrow> True) ls"
    and "list_all (\<lambda>c. wire_ok (Array c)) (cs @ written ls)" "durable (disk a') \<le> k"
  shows "\<exists>es r. prefix (cs @ synced ls) es \<and> prefix es (cs @ written ls) \<and>
    (r = ReplayDone \<or> r = ReadFailed UnexpectedEOF) \<and>
    Replay fn (content (crash k (disk a'))) st =
      (case run_all fn es st of Some (ReplayDone, st') \<Rightarrow> Some (r, st') | x \<Rightarrow> x)"
proof -
  have disk: "content (disk a') = aof_file (cs @ written ls)"
    "durable (disk a') = length (aof_file (cs @ synced ls))"
    using aof_run_disk [OF assms(4,5), of cs] assms(1-3) by (auto simp: aof_Open_def)
  obtain us where us: "written ls = synced ls @ us" using prefix_synced by (auto simp: prefix_def)
  from Replay_cut [of "cs @ synced ls" us k fn st] obtain es r where "prefix es us"
    "r = ReplayDone \<or> r = ReadFailed UnexpectedEOF"
    "Replay fn (take k (aof_file ((cs @ synced ls) @ us))) st =
      (case run_all fn ((cs @ synced ls) @ es) st of Some (ReplayDone, st') \<Rightarrow> Some (r, st') | x \<Rightarrow> x)"
    using assms(6,7) disk(2) us by auto
  then show ?thesis
    by (intro exI [of _ "(cs @ synced ls) @ es"] exI [of _ r]) (simp add: crash_def disk(1) us)
qed

theorem crash_keeps_synced_witness:
  "\<exists>es r. prefix [[Bulk ''INCR'', Bulk ''n'']] es \<and>
     prefix es [[Bulk ''INCR'', Bulk ''n''], [Bulk ''FLUSHALL'']] \<and>
     (r = ReplayDone \<or> r = ReadFailed UnexpectedEOF) \<and>
     Replay (\<lambda>c n. Some (None :: unit option, Suc n))
       (content (crash 30 \<lparr>content = aof_file [[Bulk ''INCR'', Bulk ''n''], [Bulk ''FLUSHALL'']], durable = 21\<rparr>))
       (0 :: nat) =
     (case run_all (\<lambda>c n. Some (None, Suc n)) es 0 of Some (ReplayDone, st') \<Rightarrow> Some (r, st') | x \<Rightarrow> x)"
proof -
  let ?d = "\<lambda>cs n. \<lparr>content = aof_file cs, durable = n\<rparr>"
  let ?a = "\<lambda>cs n. \<lparr>disk = ?d cs n, closed = False, stopSync = False, syncing = True\<rparr>"
  let ?x = "[Bulk ''INCR'', Bulk ''n'']" and ?y = "[Bulk ''FLUSHALL'']"
  note len = value_defs marshalArray_def marshalBulk_def crlf_def Itoa_def nat_digits.simps
  have app: "aof_step (?a cs n) (Wrote c) (?a (cs @ [c]) n)" if "length (Marshal (Array c)) < 100" for c cs n
    by (rule wrote [of 100]) (use that in \<open>simp add: aof_defs aof_file_append\<close>)
  have "aof_run (?a [] 0) ([] @ [Wrote ?x]) (?a ([] @ [?x]) 0)"
    by (rule run_step [OF run_refl app]) (simp add: len)
  moreover have "aof_step (?a ([] @ [?x]) 0) Synced (?a [?x] 21)"
  proof -
    have "length (aof_file [?x]) = 21" by (simp add: len)
    then show ?thesis using tick [of True "?a [?x] 0"] by simp
  qed
  moreover have "aof_step (?a [?x] 21) (Wrote ?y) (?a ([?x] @ [?y]) 21)"
    by (rule app) (simp add: len)
  ultimately have "aof_run (?a [] 0) ((([] @ [Wrote ?x]) @ [Synced]) @ [Wrote ?y]) (?a ([?x] @ [?y]) 21)"
    by (blast intro: run_step)
  from crash_keeps_synced [OF _ _ _ this, of "?d [] 0" "[]" 30 "\<lambda>c n. Some (None :: unit option, Suc n)" 0]
  show ?thesis
    by (simp add: aof_Open_def synced_def written_def value_defs maxAlloc_def sizeofValue_def)
qed

text \<open>C38: A torn frame at the end of the log that ends behind some of its elements reads as the end of
  the file, so the server starts. It does not remove the torn frame: commands appended later, as long
  as they are fewer than the missing elements, are taken for these elements by the next replay, which
  reports success and runs none of them.\<close>

theorem torn_tail_swallows:
  assumes "list_all wire_ok xs" "list_all (\<lambda>c. wire_ok (Array c)) ds"
    and "length xs + length ds < n" "sizeofValue * n \<le> maxAlloc"
  shows "Replay fn (fold aof_Append ds (array_head n xs)) st = Some (ReplayDone, st)"
proof -
  have "Read (array_head n (xs @ map Array ds) @ []) = Inl EOF"
    by (rule Read_array_head) (use assms in \<open>auto simp: list_all_iff Read_def\<close>)
  moreover have "fold aof_Append ds (array_head n xs) = array_head n (xs @ map Array ds)"
    by (simp add: fold_aof_Append array_head_def comp_def)
  ultimately show ?thesis by (simp add: Replay.simps [of fn "array_head _ _"])
qed

theorem torn_tail_swallows_witness:
  "Replay (\<lambda>c n. Some (None :: unit option, Suc n))
     (fold aof_Append [[Bulk ''SET'', Bulk ''k'', Bulk ''v'']] (array_head 3 [Bulk ''SET''])) (0 :: nat) =
   Some (ReplayDone, 0)"
  using torn_tail_swallows [of "[Bulk ''SET'']" "[[Bulk ''SET'', Bulk ''k'', Bulk ''v'']]" 3
      "\<lambda>c n. Some (None :: unit option, Suc n)" "0 :: nat"]
  by (simp add: value_defs maxAlloc_def sizeofValue_def)

end
