(* ===== verification/Lifecycle.thy ===== *)
theory Lifecycle
  imports AofFile Server
begin

section \<open>The life of the server (internal/server/server.go: Run, acceptLoop, shutdown)\<close>

text \<open>
  The goroutines of \<open>Run\<close>, of \<open>acceptLoop\<close>, of the one that waits for the wait group, and
  of the connections, as a step relation on the fields they share. \<open>life_step b\<close> is a step
  of the server's own if \<open>b\<close> is false; the end of a connection that the server has not
  closed is its client's doing.
\<close>

subsection \<open>Definitions\<close>

text \<open>
  \<open>acceptLoop\<close>: in \<open>Accept\<close>, before \<open>trackConn\<close>, before \<open>wg.Add\<close>, or returned, with or
  without an error.
\<close>

datatype accept_pc = Accepting | Accepted nat | Tracked nat | AcceptEnded bool

text \<open>A connection's goroutine: in \<open>handleConn\<close>, before \<open>untrackConn\<close>, before \<open>wg.Done\<close>.\<close>

datatype handler_pc = Serving | Untracking | Untracked

datatype run_result = RunOk | AcceptFailed | AofCloseFailed

datatype run_pc = Selecting | ClosingListener | Draining | Waiting | ClosingStore | ClosingAof | Returned run_result

record Life =
  acc :: accept_pc
  run :: run_pc
  listening :: bool
  closing :: bool
  tracked :: "nat fset"
  handlers :: "(nat, handler_pc) fmap"
  wg :: nat
  waited :: bool
  shut :: "nat fset"
  lstore :: Store
  laof :: "AOF option"

definition life_start :: "AOF option \<Rightarrow> Life" where
  "life_start a =
     \<lparr>acc = Accepting, run = Selecting, listening = True, closing = False, tracked = {||}, handlers = fmempty,
      wg = 0, waited = False, shut = {||}, lstore = New, laof = a\<rparr>"

text \<open>\<open>acceptLoop\<close> after an error of \<open>Accept\<close>.\<close>

definition accept_failed :: "Life \<Rightarrow> Life" where
  "accept_failed s = s\<lparr>acc := AcceptEnded (\<not> closing s)\<rparr>"

text \<open>\<open>wg.Add(1)\<close> and the \<open>go\<close> statement.\<close>

definition spawn :: "nat \<Rightarrow> Life \<Rightarrow> Life" where
  "spawn c s = s\<lparr>acc := Accepting, wg := Suc (wg s), handlers := fmupd c Serving (handlers s)\<rparr>"

definition handler_done :: "nat \<Rightarrow> Life \<Rightarrow> Life" where
  "handler_done c s = s\<lparr>wg := wg s - 1, handlers := fmdrop c (handlers s)\<rparr>"

text \<open>\<open>shutdown\<close>: the two ends of its \<open>select\<close>, and what comes after.\<close>

definition force_close :: "Life \<Rightarrow> Life" where
  "force_close s = s\<lparr>run := Waiting, shut := shut s |\<union>| tracked s\<rparr>"

definition close_store :: "Life \<Rightarrow> Life" where
  "close_store s = s\<lparr>run := ClosingAof, lstore := Close (lstore s)\<rparr>"

definition close_aof :: "bool \<Rightarrow> Life \<Rightarrow> Life" where
  "close_aof ioerr s =
     (case laof s of
        None \<Rightarrow> s\<lparr>run := Returned RunOk\<rparr>
      | Some a \<Rightarrow>
          (let (err, a') = aof_Close ioerr a
           in s\<lparr>run := Returned (if err then AofCloseFailed else RunOk), laof := Some a'\<rparr>))"

inductive life_step :: "bool \<Rightarrow> Life \<Rightarrow> Life \<Rightarrow> bool" where
  accepts: "acc s = Accepting \<Longrightarrow> listening s \<Longrightarrow> c |\<notin>| tracked s \<Longrightarrow> c |\<notin>| fmdom (handlers s) \<Longrightarrow> c |\<notin>| shut s \<Longrightarrow>
    life_step True s (s\<lparr>acc := Accepted c\<rparr>)"
| accept_error: "acc s = Accepting \<Longrightarrow> listening s \<Longrightarrow> life_step True s (accept_failed s)"
| accept_closed: "acc s = Accepting \<Longrightarrow> \<not> listening s \<Longrightarrow> life_step False s (accept_failed s)"
| track: "acc s = Accepted c \<Longrightarrow> life_step False s (s\<lparr>acc := Tracked c, tracked := trackConn c (tracked s)\<rparr>)"
| spawns: "acc s = Tracked c \<Longrightarrow> life_step False s (spawn c s)"
| serve_end: "fmlookup (handlers s) c = Some Serving \<Longrightarrow>
    life_step (c |\<notin>| shut s) s (s\<lparr>handlers := fmupd c Untracking (handlers s)\<rparr>)"
| untrack: "fmlookup (handlers s) c = Some Untracking \<Longrightarrow>
    life_step False s (s\<lparr>handlers := fmupd c Untracked (handlers s), tracked := untrackConn c (tracked s)\<rparr>)"
| handler_end: "fmlookup (handlers s) c = Some Untracked \<Longrightarrow> life_step False s (handler_done c s)"
| cancel: "run s = Selecting \<Longrightarrow> life_step True s (s\<lparr>run := ClosingListener, closing := True\<rparr>)"
| serve_err: "run s = Selecting \<Longrightarrow> acc s = AcceptEnded e \<Longrightarrow>
    life_step False s (s\<lparr>run := Returned (if e then AcceptFailed else RunOk)\<rparr>)"
| close_listener: "run s = ClosingListener \<Longrightarrow> life_step False s (s\<lparr>run := Draining, listening := False\<rparr>)"
| wait: "run s = Draining \<or> run s = Waiting \<Longrightarrow> wg s = 0 \<Longrightarrow> \<not> waited s \<Longrightarrow> life_step False s (s\<lparr>waited := True\<rparr>)"
| drained: "run s = Draining \<Longrightarrow> waited s \<Longrightarrow> life_step False s (s\<lparr>run := ClosingStore\<rparr>)"
| grace_over: "run s = Draining \<Longrightarrow> life_step False s (force_close s)"
| waits: "run s = Waiting \<Longrightarrow> waited s \<Longrightarrow> life_step False s (s\<lparr>run := ClosingStore\<rparr>)"
| closes_store: "run s = ClosingStore \<Longrightarrow> life_step False s (close_store s)"
| closes_aof: "run s = ClosingAof \<Longrightarrow> life_step False s (close_aof ioerr s)"

inductive life_run :: "Life \<Rightarrow> nat \<Rightarrow> Life \<Rightarrow> bool" where
  life_refl: "life_run s 0 s"
| life_snoc: "life_run s n s1 \<Longrightarrow> life_step b s1 s2 \<Longrightarrow> life_run s (Suc n) s2"

subsection \<open>The invariant\<close>

text \<open>
  The wait group counts the goroutines, and the table holds exactly the connections whose
  goroutine has not taken itself out again, and the one that is about to get its goroutine.
\<close>

definition life_ok :: "Life \<Rightarrow> bool" where
  "life_ok s \<longleftrightarrow>
     wg s = fcard (fmdom (handlers s)) \<and>
     (\<forall>c. c |\<in>| tracked s \<longleftrightarrow>
        fmlookup (handlers s) c = Some Serving \<or> fmlookup (handlers s) c = Some Untracking \<or> acc s = Tracked c) \<and>
     (\<forall>c. acc s = Accepted c \<or> acc s = Tracked c \<longrightarrow> c |\<notin>| fmdom (handlers s)) \<and>
     (run s = Selecting \<longrightarrow> \<not> closing s \<and> listening s)"

lemma life_start_ok: "life_ok (life_start a)"
  by (simp add: life_ok_def life_start_def fcard_fempty)

lemma fcard_finsert_new: "c |\<notin>| A \<Longrightarrow> fcard (finsert c A) = Suc (fcard A)"
  by (rule fcard_finsert_disjoint)

lemma fcard_remove: "c |\<in>| A \<Longrightarrow> fcard (A |-| {|c|}) = fcard A - 1"
  by (metis fcard_fminus_fsingleton)

lemma finsert_mem: "c |\<in>| A \<Longrightarrow> finsert c A = A"
  by auto

lemma track_simps [simp]: "trackConn c A = finsert c A" "untrackConn c A = A |-| {|c|}"
  by (simp_all add: trackConn_def untrackConn_def)

lemmas life_defs = accept_failed_def spawn_def handler_done_def force_close_def close_store_def close_aof_def

lemma life_step_ok: "life_step b s s' \<Longrightarrow> life_ok s \<Longrightarrow> life_ok s'"
proof (induction rule: life_step.induct)
  case (spawns s c)
  then show ?case
    by (auto simp: life_ok_def life_defs fcard_finsert_new)
next
  case (serve_end s c)
  then have "c |\<in>| fmdom (handlers s)" by (simp add: mem_fmdom_iff)
  with serve_end show ?case by (auto simp: life_ok_def finsert_mem)
next
  case (untrack s c)
  then have "c |\<in>| fmdom (handlers s)" by (simp add: mem_fmdom_iff)
  with untrack show ?case by (auto simp: life_ok_def finsert_mem)
next
  case (handler_end s c)
  then have "c |\<in>| fmdom (handlers s)" by (simp add: mem_fmdom_iff)
  with handler_end show ?case by (auto simp: life_ok_def life_defs fcard_remove)
qed (auto simp: life_ok_def life_defs case_prod_beta Let_def split: option.split)

lemma life_run_cases:
  "life_run s n s' \<Longrightarrow> P 0 s \<Longrightarrow>
    (\<And>n b s1 s2. life_run s n s1 \<Longrightarrow> P n s1 \<Longrightarrow> life_step b s1 s2 \<Longrightarrow> P (Suc n) s2) \<Longrightarrow> P n s'"
  by (induction rule: life_run.induct) blast+

interpretation life: step_system "\<lambda>s b s'. life_step b s s'" life_run 0 "\<lambda>n _. Suc n" life_ok
  by unfold_locales (fact life_run_cases life_step_ok)+

subsection \<open>Shutting down\<close>

text \<open>What the steps of the connections and of \<open>shutdown\<close> have left to do.\<close>

fun handler_work :: "handler_pc \<Rightarrow> nat" where
  "handler_work Serving = 3"
| "handler_work Untracking = 2"
| "handler_work Untracked = 1"

definition handlers_work :: "(nat, handler_pc) fmap \<Rightarrow> nat" where
  "handlers_work m = (\<Sum>c\<in>fset (fmdom m). handler_work (the (fmlookup m c)))"

fun run_work :: "run_pc \<Rightarrow> nat" where
  "run_work Draining = 4"
| "run_work Waiting = 3"
| "run_work ClosingStore = 2"
| "run_work ClosingAof = 1"
| "run_work _ = 0"

definition life_work :: "Life \<Rightarrow> nat" where
  "life_work s = handlers_work (handlers s) + run_work (run s) + (if waited s then 0 else 1)"

text \<open>
  \<open>shutdown\<close> after the accept loop has ended: the connections that are still served when
  the grace period is over have been closed, and nobody is left when the wait is over.
\<close>

definition draining_ok :: "Life \<Rightarrow> bool" where
  "draining_ok s \<longleftrightarrow>
     life_ok s \<and> (\<exists>e. acc s = AcceptEnded e) \<and> run s \<noteq> Selecting \<and> run s \<noteq> ClosingListener \<and>
     (run s = Waiting \<longrightarrow> (\<forall>c. fmlookup (handlers s) c = Some Serving \<longrightarrow> c |\<in>| shut s)) \<and>
     (waited s \<longrightarrow> handlers s = fmempty) \<and> (run s \<noteq> Draining \<and> run s \<noteq> Waiting \<longrightarrow> waited s) \<and>
     (run s = ClosingAof \<or> (\<exists>r. run s = Returned r) \<longrightarrow> stopSweep (lstore s)) \<and>
     ((\<exists>r. run s = Returned r) \<longrightarrow> (case laof s of None \<Rightarrow> True | Some a \<Rightarrow> closed a \<and> stopSync a))"

lemma handlers_work_upd:
  assumes "fmlookup m c = Some p"
  shows "handlers_work (fmupd c p' m) + handler_work p = handlers_work m + handler_work p'"
proof -
  have c: "c \<in> fset (fmdom m)" using assms by (simp add: mem_fmdom_iff)
  let ?f = "\<lambda>m c. handler_work (the (fmlookup m c))"
  have "(\<Sum>d\<in>fset (fmdom m) - {c}. ?f (fmupd c p' m) d) = (\<Sum>d\<in>fset (fmdom m) - {c}. ?f m d)"
    by (rule sum.cong) auto
  moreover have "insert c (fset (fmdom m)) = fset (fmdom m)" using c by auto
  ultimately show ?thesis
    using sum.remove [OF _ c, of "?f (fmupd c p' m)"] sum.remove [OF _ c, of "?f m"] assms
    by (simp add: handlers_work_def)
qed

lemma handlers_work_drop:
  assumes "fmlookup m c = Some p"
  shows "handlers_work (fmdrop c m) + handler_work p = handlers_work m"
proof -
  have c: "c \<in> fset (fmdom m)" using assms by (simp add: mem_fmdom_iff)
  have "(\<Sum>d\<in>fset (fmdom m) - {c}. handler_work (the (fmlookup (fmdrop c m) d))) =
      (\<Sum>d\<in>fset (fmdom m) - {c}. handler_work (the (fmlookup m d)))"
    by (rule sum.cong) auto
  with sum.remove [OF _ c, of "\<lambda>d. handler_work (the (fmlookup m d))"] assms show ?thesis
    by (simp add: handlers_work_def)
qed

lemma draining_step:
  assumes "life_step b s s'" "draining_ok s"
  shows "draining_ok s' \<and> life_work s' < life_work s"
proof -
  have ok: "life_ok s'" using life_step_ok assms by (auto simp: draining_ok_def)
  have empty: "fcard (fmdom m) = 0 \<longleftrightarrow> m = fmempty" for m :: "(nat, handler_pc) fmap"
    by (metis fcard_0_eq fmdom_empty_iff)
  show ?thesis
    using assms(1)
  proof cases
    case (serve_end c)
    with assms(2) ok handlers_work_upd [OF serve_end(3), of Untracking] show ?thesis
      by (auto simp: draining_ok_def life_work_def)
  next
    case (untrack c)
    with assms(2) ok handlers_work_upd [OF untrack(3), of Untracked] show ?thesis
      by (auto simp: draining_ok_def life_work_def)
  next
    case (handler_end c)
    with assms(2) ok handlers_work_drop [OF handler_end(3)] show ?thesis
      by (auto simp: draining_ok_def life_work_def life_defs)
  next
    case wait
    with assms(2) ok empty [of "handlers s"] show ?thesis
      by (auto simp: draining_ok_def life_work_def life_ok_def)
  next
    case grace_over
    with assms(2) ok show ?thesis
      by (auto simp: draining_ok_def life_work_def life_ok_def life_defs)
  qed (use assms(2) ok in \<open>auto simp: draining_ok_def life_work_def life_defs aof_Close_def Close_def Let_def
      split: option.splits\<close>)
qed

interpretation draining: ranked_system "\<lambda>s b s'. life_step b s s'" life_run 0 "\<lambda>n _. Suc n" draining_ok
  life_work "\<lambda>n. n"
  by unfold_locales (use draining_step in \<open>blast intro: life_run_cases\<close>)+

lemma draining_progress:
  assumes "draining_ok s" "\<nexists>r. run s = Returned r"
  shows "\<exists>s'. life_step False s s'"
proof (cases "run s")
  case Waiting
  show ?thesis
  proof (cases "waited s \<or> wg s = 0")
    case True
    with Waiting wait waits show ?thesis by blast
  next
    case False
    then have "handlers s \<noteq> fmempty" using assms(1) by (auto simp: draining_ok_def life_ok_def fcard_fempty)
    then obtain c p where c: "fmlookup (handlers s) c = Some p" by (metis fmap_ext fmempty_lookup option.exhaust)
    show ?thesis
    proof (cases p)
      case Serving
      with c assms(1) Waiting have "c |\<in>| shut s" by (simp add: draining_ok_def)
      with serve_end [of s c] c Serving show ?thesis by auto
    qed (use c untrack handler_end in blast)+
  qed
qed (use assms grace_over [of s] closes_store [of s] closes_aof [of s False] in \<open>auto simp: draining_ok_def\<close>)

subsection \<open>Properties\<close>

text \<open>C12: Shutdown returns: once the listener is closed and the accept loop has ended, before the wait
  group was seen empty, every run takes at most a number of steps that the state bounds; as long as
  \<open>Run\<close> has not returned, the server itself has a next step, without the help of any client, because
  after the grace period every connection still served has been closed; and when \<open>Run\<close> has returned,
  no connection is left, the sweeper is stopped and the log is closed.\<close>

theorem shutdown_returns:
  assumes "life_run (life_start a) n s" "run s = Draining" "acc s = AcceptEnded e" "\<not> waited s"
    and "life_run s m s'"
  shows "m \<le> life_work s \<and>
    (if \<exists>r. run s' = Returned r
     then handlers s' = fmempty \<and> tracked s' = {||} \<and> wg s' = 0 \<and> stopSweep (lstore s') \<and>
       (case laof s' of None \<Rightarrow> True | Some a \<Rightarrow> closed a \<and> stopSync a)
     else (\<exists>s''. life_step False s' s''))"
proof -
  have "life_ok s" using life.run_ok [OF assms(1) life_start_ok] .
  with assms(2-4) have "draining_ok s" by (simp add: draining_ok_def)
  note d = draining.run_ok [OF assms(5) this] draining.run_bound [OF assms(5) this]
  show ?thesis
  proof (cases "\<exists>r. run s' = Returned r")
    case True
    with d(1) have "handlers s' = fmempty" "stopSweep (lstore s')" "life_ok s'" "\<exists>e. acc s' = AcceptEnded e"
        "case laof s' of None \<Rightarrow> True | Some a \<Rightarrow> closed a \<and> stopSync a"
      by (auto simp: draining_ok_def)
    moreover from this have "wg s' = 0" "tracked s' = {||}" by (auto simp: life_ok_def fcard_fempty)
    ultimately show ?thesis using True d(2) by simp
  next
    case False
    with draining_progress [OF d(1)] d(2) show ?thesis by simp
  qed
qed

text \<open>A run that shuts down with one client that never leaves.\<close>

definition idle_client :: "AOF option \<Rightarrow> Life" where
  "idle_client a =
     \<lparr>acc = AcceptEnded False, run = Draining, listening = False, closing = True, tracked = {|1|},
      handlers = fmupd 1 Serving fmempty, wg = 1, waited = False, shut = {||}, lstore = New, laof = a\<rparr>"

lemma idle_client_reached: "\<exists>n. life_run (life_start a) n (idle_client a)"
proof -
  let ?s0 = "life_start a"
  note start = life_start_def
  have "life_run ?s0 1 (?s0\<lparr>acc := Accepted 1\<rparr>)"
    using life_snoc [OF life_refl accepts [of ?s0 1]] by (simp add: start)
  from life_snoc [OF this track [of _ 1]]
  have "life_run ?s0 2 (?s0\<lparr>acc := Tracked 1, tracked := {|1|}\<rparr>)" by (simp add: start numeral_2_eq_2)
  from life_snoc [OF this spawns [of _ 1]]
  have "life_run ?s0 3 (?s0\<lparr>tracked := {|1|}, wg := 1, handlers := fmupd 1 Serving fmempty\<rparr>)"
    by (simp add: start spawn_def eval_nat_numeral)
  from life_snoc [OF this cancel]
  have "life_run ?s0 4 (?s0\<lparr>tracked := {|1|}, wg := 1, handlers := fmupd 1 Serving fmempty,
      run := ClosingListener, closing := True\<rparr>)" by (simp add: start eval_nat_numeral)
  from life_snoc [OF this close_listener]
  have "life_run ?s0 5 (?s0\<lparr>tracked := {|1|}, wg := 1, handlers := fmupd 1 Serving fmempty,
      run := Draining, closing := True, listening := False\<rparr>)" by (simp add: start eval_nat_numeral)
  from life_snoc [OF this accept_closed] show ?thesis
    by (auto simp: start accept_failed_def idle_client_def)
qed

theorem shutdown_returns_witness:
  "life_work (idle_client None) = 8 \<and> (\<exists>s''. life_step False (idle_client None) s'')"
proof -
  obtain n where "life_run (life_start None) n (idle_client None)" using idle_client_reached by blast
  from shutdown_returns [OF this _ _ _ life_refl, of False]
  have "\<exists>s''. life_step False (idle_client None) s''" by (simp add: idle_client_def)
  moreover have "life_work (idle_client None) = 8"
    by (simp add: life_work_def idle_client_def handlers_work_def)
  ultimately show ?thesis by blast
qed

text \<open>C37: A connection can slip through the shutdown: the wait group is raised only after \<open>Accept\<close> and
  \<open>trackConn\<close>, so a connection accepted just before the cancellation is not waited for. \<open>Run\<close> returns
  without an error, the log is closed, and the connection is served all the same; every write of it
  from then on fails to reach the log.\<close>

theorem shutdown_misses_connection:
  assumes "\<not> closed a"
  shows "\<exists>n s a'. life_run (life_start (Some a)) n s \<and> run s = Returned RunOk \<and>
    fmlookup (handlers s) c = Some Serving \<and> laof s = Some a' \<and>
    (\<forall>k args. AOF_Append k args a' = (True, a'))"
proof -
  let ?s0 = "life_start (Some a)" and ?a = "a\<lparr>stopSync := True, closed := True\<rparr>"
  let ?t = "?s0\<lparr>acc := Tracked c, run := Returned RunOk, closing := True, listening := False, waited := True,
      lstore := Close New, laof := Some ?a, tracked := {|c|}\<rparr>"
  note start = life_start_def
  have "life_run ?s0 1 (?s0\<lparr>acc := Accepted c\<rparr>)"
    using life_snoc [OF life_refl accepts [of ?s0 c]] by (simp add: start)
  from life_snoc [OF this cancel]
  have "life_run ?s0 2 (?s0\<lparr>acc := Accepted c, run := ClosingListener, closing := True\<rparr>)"
    by (simp add: start numeral_2_eq_2)
  from life_snoc [OF this close_listener]
  have "life_run ?s0 3 (?s0\<lparr>acc := Accepted c, run := Draining, closing := True, listening := False\<rparr>)"
    by (simp add: start eval_nat_numeral)
  from life_snoc [OF this wait]
  have "life_run ?s0 4 (?s0\<lparr>acc := Accepted c, run := Draining, closing := True, listening := False, waited := True\<rparr>)"
    by (simp add: start eval_nat_numeral)
  from life_snoc [OF this drained]
  have "life_run ?s0 5 (?s0\<lparr>acc := Accepted c, run := ClosingStore, closing := True, listening := False, waited := True\<rparr>)"
    by (simp add: start eval_nat_numeral)
  from life_snoc [OF this closes_store]
  have "life_run ?s0 6 (?s0\<lparr>acc := Accepted c, run := ClosingAof, closing := True, listening := False, waited := True,
      lstore := Close New\<rparr>)"
    by (simp add: start close_store_def eval_nat_numeral)
  from life_snoc [OF this closes_aof [of _ False]] assms
  have "life_run ?s0 7 (?s0\<lparr>acc := Accepted c, run := Returned RunOk, closing := True, listening := False, waited := True,
      lstore := Close New, laof := Some ?a\<rparr>)"
    by (simp add: start close_aof_def aof_Close_def eval_nat_numeral)
  from life_snoc [OF this track [of _ c]]
  have "life_run ?s0 8 ?t"
    by (simp add: start eval_nat_numeral)
  from life_snoc [OF this spawns [of _ c]] have "life_run ?s0 9 (spawn c ?t)" by simp
  moreover have "run (spawn c ?t) = Returned RunOk" "fmlookup (handlers (spawn c ?t)) c = Some Serving"
    "laof (spawn c ?t) = Some ?a" "\<forall>k args. AOF_Append k args ?a = (True, ?a)"
    by (simp_all add: spawn_def aof_defs)
  ultimately show ?thesis by blast
qed

theorem shutdown_misses_connection_witness:
  "\<exists>n s a'. life_run (life_start (aof_Open (Some \<lparr>content = [], durable = 0\<rparr>))) n s \<and> run s = Returned RunOk \<and>
    fmlookup (handlers s) 5 = Some Serving \<and> laof s = Some a' \<and> (\<forall>k args. AOF_Append k args a' = (True, a'))"
  using shutdown_misses_connection
    [of "\<lparr>disk = \<lparr>content = [], durable = 0\<rparr>, closed = False, stopSync = False, syncing = True\<rparr>" 5]
  by (simp add: aof_Open_def)

end
