(* ===== verification/CrashRecovery.thy ===== *)
theory CrashRecovery
  imports AofFile Races
begin

section \<open>Starting after a crash\<close>

text \<open>
  What \<open>New\<close> makes of a log whose last frame a crash has cut: the replay of whole commands
  always gets to the end of them, so how the start ends depends on where the cut is.
\<close>

lemma run_all_total:
  assumes rt: "\<And>n. same_runtime rt (es n)" and up: "upper_idem rt"
  shows "session_ok rt w ctx \<Longrightarrow>
    \<exists>w' ctx' n'. run_all (replay_fn es) cs (w, ctx, n) = Some (ReplayDone, (w', ctx', n')) \<and> session_ok rt w' ctx'"
proof (induction cs arbitrary: w ctx n)
  case (Cons c cs)
  show ?case
  proof (cases "c = []")
    case False
    obtain v w1 c1 where "Dispatch (Suc (Suc 0)) (es n) w ctx (vStr (hd c)) (tl c) = Some (v, w1, c1)" "session_ok rt w1 c1"
      using Dispatch_ok [OF rt up Cons.prems] by blast
    with Cons.IH [OF this(2)] False show ?thesis by (simp add: replay_fn_def numeral_2_eq_2)
  qed (use Cons in \<open>simp add: replay_fn_def\<close>)
qed simp

lemma restart_session: "session_ok rt \<lparr>wstore = New, whub = NewHub, waof = f\<rparr> NewContext"
  by (simp add: session_ok_def NewContext_def sub_alloc_def wf_New wf_NewHub)

text \<open>A frame cut inside the payload of a bulk string.\<close>

lemma Read_cut_payload:
  assumes "s \<noteq> []" "length s < m" "m \<le> maxAlloc"
  shows "Read (CHR ''$'' # Itoa m @ crlf @ s) = Inl UnexpectedEOF"
  using assms by (simp add: Read_def readBulk_def readInteger_Itoa sint_of_nat_alloc ReadFull_def)

text \<open>C17: A crash can keep the server from starting: if it cuts the last frame inside the payload of a
  bulk string, the replay runs the whole commands before it and then fails with an unexpected end of
  file, and \<open>New\<close> returns the error, whatever those commands were; only repairing the file by hand
  helps.\<close>

theorem torn_payload_refuses:
  assumes "upper_idem rt" "\<forall>n. same_runtime rt (es n)" "AOFPath cfg \<noteq> []"
    and "list_all (\<lambda>c. wire_ok (Array c)) cs" "list_all wire_ok xs" "length xs < n" "sizeofValue * n \<le> maxAlloc"
    and "s \<noteq> []" "length s < m" "m \<le> maxAlloc"
  shows "server_New es cfg (Some (fold aof_Append cs [] @ array_head n xs @ CHR ''$'' # Itoa m @ crlf @ s)) =
    Some (Inl (ReplayFailed UnexpectedEOF))"
proof -
  let ?p = "array_head n xs @ CHR ''$'' # Itoa m @ crlf @ s"
  have "Read ?p = Inl UnexpectedEOF"
    using Read_array_head [OF assms(5-7) Read_cut_payload [OF assms(8-10)]] by simp
  then have "Replay fn ?p st = Some (ReadFailed UnexpectedEOF, st)" for fn :: "(World \<times> Context \<times> nat, start_error) replay_fn" and st
    by (simp add: Replay.simps [of fn ?p])
  moreover obtain w' ctx' k where "run_all (replay_fn es) cs (\<lparr>wstore = New, whub = NewHub, waof = aof_file cs @ ?p\<rparr>, NewContext, 0) =
      Some (ReplayDone, (w', ctx', k))"
    using run_all_total [where es = es, OF assms(2) [rule_format] assms(1) restart_session] by blast
  ultimately show ?thesis
    using assms(3)
    by (simp add: server_New_def server_replay_def aof_file_def [symmetric] Replay_append [OF assms(4)])
qed

theorem torn_payload_refuses_witness:
  "server_New (\<lambda>_ _. sample_env 0) \<lparr>Addr = '':6379'', AOFPath = ''db.aof''\<rparr>
     (Some (fold aof_Append [[Bulk ''INCR'', Bulk ''n'']] [] @ array_head 3 [Bulk ''SET'', Bulk ''k''] @
        CHR ''$'' # Itoa 5 @ crlf @ ''val'')) =
   Some (Inl (ReplayFailed UnexpectedEOF))"
  by (rule torn_payload_refuses [OF sample_upper])
    (simp_all add: value_defs maxAlloc_def sizeofValue_def)

subsection \<open>A crash under concurrency\<close>




end
