(* ===== verification/MainGo.thy ===== *)
theory MainGo
  imports Samples Lifecycle
begin

section \<open>The command (cmd/goredis/main.go)\<close>

text \<open>
  The flags with their defaults, as the package \<open>flag\<close> parses them, the configuration they
  make, and the exit status. Starting and running the server are arguments of \<open>main_go\<close>:
  \<open>server_New\<close> models the first, \<open>Lifecycle\<close> the second.
\<close>

subsection \<open>Definitions\<close>

record Flags =
  host :: string
  port :: string
  aofPath :: string

definition default_flags :: Flags where
  "default_flags = \<lparr>host = ''0.0.0.0'', port = ''6379'', aofPath = ''db.aof''\<rparr>"

text \<open>\<open>flag.Parse\<close> on string flags, and the status with which it exits on an error.\<close>

datatype flag_error = ErrHelp | BadFlag

fun flag_status :: "flag_error \<Rightarrow> nat" where
  "flag_status ErrHelp = 0"
| "flag_status BadFlag = 2"

definition set_flag :: "string \<Rightarrow> string \<Rightarrow> Flags \<Rightarrow> Flags" where
  "set_flag name v fl =
     (if name = ''host'' then fl\<lparr>host := v\<rparr>
      else if name = ''port'' then fl\<lparr>port := v\<rparr>
      else fl\<lparr>aofPath := v\<rparr>)"

definition is_flag :: "string \<Rightarrow> bool" where
  "is_flag name \<longleftrightarrow> name \<in> {''host'', ''port'', ''aof''}"

text \<open>The name of a flag and the value behind its first equals sign, which cannot come first.\<close>

definition split_flag :: "string \<Rightarrow> string \<times> string option" where
  "split_flag s =
     (let n = takeWhile (\<lambda>c. c \<noteq> CHR ''='') s; r = dropWhile (\<lambda>c. c \<noteq> CHR ''='') s
      in (n, if r = [] then None else Some (tl r)))"

definition flag_name :: "string \<Rightarrow> string" where
  "flag_name s = (if s ! 1 = CHR ''-'' then drop 2 s else drop 1 s)"

fun flag_Parse :: "string list \<Rightarrow> Flags \<Rightarrow> flag_error + Flags" where
  "flag_Parse [] fl = Inr fl"
| "flag_Parse (s # args) fl =
     (if length s < 2 \<or> s ! 0 \<noteq> CHR ''-'' \<or> s = ''--'' then Inr fl
      else let name = flag_name s
           in if name = [] \<or> name ! 0 = CHR ''-'' \<or> name ! 0 = CHR ''='' then Inl BadFlag
              else case split_flag name of (n, v) \<Rightarrow>
                if \<not> is_flag n then Inl (if n = ''help'' \<or> n = ''h'' then ErrHelp else BadFlag)
                else (case v of
                        Some x \<Rightarrow> flag_Parse args (set_flag n x fl)
                      | None \<Rightarrow>
                          (case args of
                             [] \<Rightarrow> Inl BadFlag
                           | x # args' \<Rightarrow> flag_Parse args' (set_flag n x fl))))"

definition JoinHostPort :: "string \<Rightarrow> string \<Rightarrow> string" where
  "JoinHostPort h p =
     (if CHR '':'' \<in> set h then ''['' @ h @ '']:'' @ p else h @ '':'' @ p)"

definition main_config :: "Flags \<Rightarrow> Config" where
  "main_config fl = \<lparr>Addr = JoinHostPort (host fl) (port fl), AOFPath = aofPath fl\<rparr>"

text \<open>\<open>Run\<close> fails to listen, or ends as \<open>Lifecycle\<close> has it.\<close>

datatype run_end = ListenFailed | Ran run_result

text \<open>The exit status; a panic exits with 2.\<close>

definition main_go ::
    "(Config \<Rightarrow> (start_error + World) option) \<Rightarrow> (Config \<Rightarrow> World \<Rightarrow> run_end) \<Rightarrow> string list \<Rightarrow> nat" where
  "main_go start run_server args =
     (case flag_Parse args default_flags of
        Inl e \<Rightarrow> flag_status e
      | Inr fl \<Rightarrow>
          (let cfg = main_config fl
           in case start cfg of
                None \<Rightarrow> 2
              | Some (Inl _) \<Rightarrow> 1
              | Some (Inr w) \<Rightarrow> (if run_server cfg w = Ran RunOk then 0 else 1)))"

subsection \<open>Flags\<close>

declare flag_Parse.simps(2) [simp del]

lemma flag_names:
  assumes "n \<in> {''host'', ''port'', ''aof''}"
  shows "is_flag n" "n \<noteq> []" "n ! 0 \<noteq> CHR ''-''" "n ! 0 \<noteq> CHR ''=''" "CHR ''='' \<notin> set n"
  using assms by (auto simp: is_flag_def)

lemma split_flag_plain: "CHR ''='' \<notin> set n \<Longrightarrow> split_flag n = (n, None)"
  by (auto simp: split_flag_def takeWhile_eq_all_conv dropWhile_eq_Nil_conv)

lemma split_flag_value: "CHR ''='' \<notin> set n \<Longrightarrow> split_flag (n @ ''='' @ v) = (n, Some v)"
  by (simp add: split_flag_def takeWhile_append2 dropWhile_append2 takeWhile_append dropWhile_append)

lemma flag_Parse_one:
  assumes "s = ''-'' @ name \<or> s = ''--'' @ name" "name \<noteq> []" "name ! 0 \<noteq> CHR ''-''" "name ! 0 \<noteq> CHR ''=''"
    and "split_flag name = (n, v)" "is_flag n"
  shows "flag_Parse (s # args) fl =
    (case v of
       Some x \<Rightarrow> flag_Parse args (set_flag n x fl)
     | None \<Rightarrow> (case args of [] \<Rightarrow> Inl BadFlag | x # args' \<Rightarrow> flag_Parse args' (set_flag n x fl)))"
proof -
  obtain c r where c: "name = c # r" using assms(2) by (cases name) auto
  with assms(1,3) have "flag_name s = name" "\<not> length s < 2" "s ! 0 = CHR ''-''" "s \<noteq> ''--''"
    by (auto simp: flag_name_def)
  with assms(2-6) show ?thesis by (simp add: flag_Parse.simps(2) Let_def)
qed

lemma flag_Parse_pair:
  assumes "n \<in> {''host'', ''port'', ''aof''}" "d = ''-'' \<or> d = ''--''"
  shows "flag_Parse ((d @ n) # v # args) fl = flag_Parse args (set_flag n v fl)"
    "flag_Parse ((d @ n @ ''='' @ v) # args) fl = flag_Parse args (set_flag n v fl)"
proof -
  note n = flag_names [OF assms(1)]
  have nv: "(n @ ''='' @ v) ! 0 = n ! 0" using n(2) by (simp add: nth_append)
  show "flag_Parse ((d @ n) # v # args) fl = flag_Parse args (set_flag n v fl)"
    using flag_Parse_one [of "d @ n" n n None "v # args" fl] n assms(2) split_flag_plain [OF n(5)] by auto
  show "flag_Parse ((d @ n @ ''='' @ v) # args) fl = flag_Parse args (set_flag n v fl)"
    using flag_Parse_one [of "d @ n @ ''='' @ v" "n @ ''='' @ v" n "Some v" args fl] n assms(2) nv
      split_flag_value [OF n(5), of v] by auto
qed

subsection \<open>Properties\<close>

text \<open>The command line: a flag in any of the four spellings sets the address or the path of the log, an
  absent flag keeps its default. A server that cannot start, or whose \<open>Run\<close> returns an error, makes
  the process exit with 1, a bad flag or a panic with 2, and everything else with 0, the request for
  help included.\<close>

theorem main_exit:
  assumes "n \<in> {''host'', ''port'', ''aof''}"
    and "fa \<in> {[''-'' @ n, v], [''--'' @ n, v], [''-'' @ n @ ''='' @ v], [''--'' @ n @ ''='' @ v]}"
  shows "main_go start rn (fa @ rest) =
      (case flag_Parse rest (set_flag n v default_flags) of
         Inl e \<Rightarrow> flag_status e
       | Inr fl \<Rightarrow>
           (case start (main_config fl) of
              None \<Rightarrow> 2
            | Some (Inl _) \<Rightarrow> 1
            | Some (Inr w) \<Rightarrow> if rn (main_config fl) w = Ran RunOk then 0 else 1)) \<and>
    main_config (set_flag n v default_flags) =
      \<lparr>Addr = (if n = ''host'' then JoinHostPort v ''6379'' else if n = ''port'' then ''0.0.0.0:'' @ v else ''0.0.0.0:6379''),
       AOFPath = (if n = ''aof'' then v else ''db.aof'')\<rparr>"
proof -
  have "flag_Parse (fa @ rest) default_flags = flag_Parse rest (set_flag n v default_flags)"
    using assms(2) flag_Parse_pair [OF assms(1), of "''-''"] flag_Parse_pair [OF assms(1), of "''--''"] by auto
  moreover have "main_config (set_flag n v default_flags) =
      \<lparr>Addr = (if n = ''host'' then JoinHostPort v ''6379'' else if n = ''port'' then ''0.0.0.0:'' @ v else ''0.0.0.0:6379''),
       AOFPath = (if n = ''aof'' then v else ''db.aof'')\<rparr>"
    using assms(1) by (auto simp: main_config_def set_flag_def default_flags_def JoinHostPort_def)
  ultimately show ?thesis by (auto simp: main_go_def Let_def split: sum.split)
qed

theorem main_exit_witness:
  "main_go (\<lambda>cfg. server_New (\<lambda>_ _. sample_env 0) cfg None) (\<lambda>_ _. Ran RunOk) [''--aof'', ''/ro/db.aof''] = 1 \<and>
   main_go (\<lambda>cfg. server_New (\<lambda>_ _. sample_env 0) cfg None) (\<lambda>_ _. Ran RunOk) [''-aof=''] = 0"
proof -
  let ?st = "\<lambda>cfg. server_New (\<lambda>_ _. sample_env 0) cfg None"
  have "main_go ?st (\<lambda>_ _. Ran RunOk) ([''--aof'', ''/ro/db.aof''] @ []) = 1"
    using main_exit [of "''aof''" "[''--aof'', ''/ro/db.aof'']" "''/ro/db.aof''" ?st "\<lambda>_ _. Ran RunOk" "[]"]
    by (simp add: server_New_def)
  moreover have "main_go ?st (\<lambda>_ _. Ran RunOk) ([''-aof=''] @ []) = 0"
    using main_exit [of "''aof''" "[''-aof='']" "''''" ?st "\<lambda>_ _. Ran RunOk" "[]"]
    by (simp add: server_New_def)
  ultimately show ?thesis by simp
qed

end
