(* ===== verification/Overflows.thy ===== *)
theory Overflows
  imports Samples
begin

section \<open>Where 64 bits are not enough\<close>

text \<open>
  Boundary inputs of the generic and string commands (\<open>internal/command/strings.go\<close>,
  \<open>generic.go\<close>, \<open>internal/store/store.go\<close>): the negation in \<open>decrBy\<close>, the product
  \<open>time.Duration(seconds) * time.Second\<close> and the sum in \<open>TTLSeconds\<close> wrap around. Beside them the
  keys that \<open>KEYS *\<close> leaves out because \<open>path.Match\<close> stops at a slash.
\<close>

subsection \<open>The smallest decrement\<close>

lemma uminus_smallest: "- w = w" if "w = word_of_int (- (2 ^ 63))" for w :: int64
  unfolding that by simp

text \<open>\<open>DECRBY\<close> with the smallest 64-bit integer does what \<open>INCRBY\<close> with it does: it adds where it has
  to subtract.\<close>

theorem decrBy_smallest:
  assumes "w = word_of_int (- (2 ^ 63))"
  shows "decrBy_cmd env s [Bulk k, Bulk (FormatInt w)] = incrBy_cmd env s [Bulk k, Bulk (FormatInt w)]"
  by (simp add: decrBy_cmd_def incrBy_cmd_def arg_def Bulk_def uminus_smallest [OF assms])

subsection \<open>Expiry times that wrap around\<close>

lemma seconds_wrap: "sint (word_of_int n * time_Second) = wrap64 (n * 1000000000)"
  unfolding time_units by (simp flip: sint_of_int64)

text \<open>\<open>EXPIRE\<close> with a number of seconds whose nanoseconds leave the range of a duration can set a
  deadline in the past: the reply is 1 and the key is gone at once.\<close>

theorem expire_wraps:
  assumes "getLocked (clk env 0) s k = Some e" "wrap64 (sint n * 1000000000) < 0"
    and "clk env 1 \<le> t" "clk env 1 + wrap64 (sint n * 1000000000) \<noteq> 0"
  shows "\<exists>s'. expire_cmd env s [Bulk k, Bulk (FormatInt n)] = Some (IntV 1, s') \<and> getLocked t s' k = None"
proof -
  have "sint (n * time_Second) = wrap64 (sint n * 1000000000)"
    using seconds_wrap [of "sint n"] by simp
  with assms have "getLocked t (put k (e\<lparr>expireAt := timeAdd (clk env 1) (n * time_Second)\<rparr>) s) k = None"
    by (simp add: getLocked_def timeAdd_def expired_def IsZero_def)
  with assms(1) show ?thesis
    by (simp add: expire_cmd_def expire_unit_def arg_def Bulk_def Expire_def bool_reply_def)
qed

corollary expire_wraps_sample:
  "\<exists>s'. expire_cmd (sample_env 5) (put ''k'' (new_entry KindString) New) [Bulk ''k'', Bulk (FormatInt 9223372037)] =
     Some (IntV 1, s') \<and> getLocked 5 s' ''k'' = None"
proof -
  have "wrap64 (sint (9223372037 :: int64) * 1000000000) = - 9223372036709551616"
    by (simp add: wrap64_def)
  moreover have "getLocked 5 (put ''k'' (new_entry KindString) New) ''k'' = Some (new_entry KindString)"
    by (simp add: getLocked_def expired_def IsZero_def new_entry_def)
  ultimately show ?thesis
    using expire_wraps [of "sample_env 5" "put ''k'' (new_entry KindString) New" "''k''" "new_entry KindString" 9223372037 5]
    by simp
qed

text \<open>A key with at least the largest duration left (\<open>Sub\<close> saturates there) has a negative \<open>TTL\<close>,
  smaller than the -2 of a missing key.\<close>

theorem TTL_overflows:
  assumes "getLocked (c 0) s k = Some e" "expireAt e \<noteq> 0" "2 ^ 63 - 1 \<le> expireAt e - c 1"
  shows "sint (TTLSeconds c k s) = - 9223372035"
proof -
  have "ttl c k s = (word_of_int (2 ^ 63 - 1), True, True)"
    using assms by (auto simp: ttl_def IsZero_def timeSub_def sint_of_int64 wrap64_def)
  then show ?thesis by (simp add: TTLSeconds_def time_Second_def quot64_def)
qed

corollary TTL_overflows_sample:
  "sint (TTLSeconds (\<lambda>_. 5) ''k'' (put ''k'' ((new_entry KindString)\<lparr>expireAt := 2 ^ 63 + 4\<rparr>) New)) = - 9223372035"
  using TTL_overflows [of "\<lambda>_. 5" "put ''k'' ((new_entry KindString)\<lparr>expireAt := 2 ^ 63 + 4\<rparr>) New" "''k''"
      "(new_entry KindString)\<lparr>expireAt := 2 ^ 63 + 4\<rparr>"]
  by (simp add: getLocked_def expired_def IsZero_def)

subsection \<open>Keys with a slash\<close>

text \<open>As \<open>*\<close> matches every sequence of bytes but slashes in \<open>path.Match\<close>, \<open>KEYS *\<close> lists exactly the
  live keys without a slash.\<close>

theorem Keys_star:
  assumes "\<And>n. pathMatch rt ''*'' n \<longleftrightarrow> CHR ''/'' \<notin> set n"
  shows "set (Keys rt c is ''*'' s) = {k. getLocked (c 0) s k \<noteq> None \<and> CHR ''/'' \<notin> set k}"
  by (auto simp: Keys_def matchGlob_def assms getLocked_def mem_fmdom_iff split: option.splits if_splits)

end
