(* ===== verification/Spec2Isabelle.thy ===== *)
theory Spec2Isabelle
  imports Races AofFile Lifecycle CrashRecovery MainGo Overflows
begin

text \<open>
  GoRedis is an in-memory key-value server that speaks the Redis protocol (RESP2). This
  development models its Go code under \<open>src/\<close> and proves what makes it correct.

  \<^bold>\<open>The parts and how they interact.\<close> \<open>cmd/goredis/main.go\<close> parses the flags, builds the server
  (\<open>server.New\<close>, which replays the append-only file) and runs it until a signal. \<open>Run\<close> accepts
  connections; each has a goroutine for \<open>handleConn\<close>, which reads a frame, dispatches it and
  writes the reply, and one for \<open>forwardPubSub\<close>, which relays published messages.
  \<open>Registry.Dispatch\<close> validates a command, queues it inside a transaction or calls its handler,
  and then hands a successful write to \<open>OnWrite\<close>, which appends it to the log. Handlers work on
  the store (one map under one mutex, with a sweeper for expired keys) or on the hub of
  subscribers. Everything is shared by all connections.

  \<^bold>\<open>The theories.\<close>
  \<^item> \<open>Prelude\<close>: \<open>int64\<close> with its wrap-around, range loops over maps as schedules, lemmas on finite
    maps. \<open>GoStd\<close>: what the code uses of \<open>strconv\<close>, \<open>strings\<close>, \<open>time\<close>, \<open>sort\<close> and \<open>float64\<close>.
  \<^item> \<open>Resp\<close> (\<open>internal/resp\<close>): values, \<open>Marshal\<close>, the reader with all its errors; the round trip,
    totality of the reader, unambiguity of the wire, and the panic on huge lengths.
  \<^item> \<open>Keyspace\<close> (\<open>internal/store/store.go\<close>, \<open>glob.go\<close>): entries, expiry, the sweeper and the generic
    operations; the locales for typed access to entries. \<open>StringStore\<close>, \<open>HashStore\<close>, \<open>ListStore\<close>,
    \<open>SetStore\<close>, \<open>ZSetStore\<close> (\<open>string.go\<close>, \<open>hash.go\<close>, \<open>list.go\<close>, \<open>set.go\<close>, \<open>zset.go\<close>): the operations of
    each type, which refine those of a string, a finite map, a list, a finite set and a map of
    scores ordered by score and name.
  \<^item> \<open>PubSub\<close> (\<open>internal/pubsub/hub.go\<close>): hub and subscribers; consistency of the two directions of
    the subscription table, and delivery.
  \<^item> \<open>StoreCommands\<close> (\<open>internal/command\<close>, all handlers on the store), \<open>Dispatch\<close> (\<open>context.go\<close>,
    \<open>registry.go\<close>, \<open>transaction.go\<close>, \<open>pubsub.go\<close>). \<open>Contract\<close>: the contract of the handlers, for the
    whole table. \<open>Dispatcher\<close>: the locale of the table, and the dispatcher as its client.
    \<open>Transactions\<close>: \<open>EXEC\<close> against the commands sent one by one. \<open>Overflows\<close>: boundary inputs.
  \<^item> \<open>Aof\<close> (\<open>internal/aof/aof.go\<close>: \<open>Append\<close>, \<open>Replay\<close>) and \<open>AofFile\<close> (\<open>Open\<close>, \<open>syncLoop\<close>, \<open>Append\<close> with
    its errors, \<open>Close\<close>, and crashes, as a step relation on the file and the disk).
  \<^item> \<open>Server\<close> (\<open>internal/server\<close>): \<open>New\<close>, \<open>replay\<close>, the request loop of \<open>handleConn\<close>.
    \<open>Durability\<close> and \<open>Recovery\<close>: which commands replay to the same store, and that the log rebuilds
    it. \<open>CrashRecovery\<close>: the start on a log that a crash has cut, also after a concurrent run.
  \<^item> \<open>StepSystem\<close>: the locale of a step relation with an invariant, and its runs; it is interpreted on
    the log file, the interleaved connections and the life of the server.
  \<^item> \<open>Concurrency\<close>: the goroutines of the connections, of \<open>forwardPubSub\<close> and of the sweeper, as a
    step relation whose steps are the critical sections, with the mutex that a connection's request
    loop and forwarder share for writing; its invariant. \<open>Interleaving\<close>: the log, the commits, the
    serial server that reaches the same store, and progress along its runs. \<open>Sequential\<close>: the steps of one request compose to the
    request of the sequential model. \<open>Races\<close>: the properties of all interleavings, and two runs that
    show what interleaving breaks.
  \<^item> \<open>Lifecycle\<close> (\<open>server.go\<close>: \<open>Run\<close>, \<open>acceptLoop\<close>, \<open>shutdown\<close>, the tracked connections and the wait
    group, as a step relation) and \<open>MainGo\<close> (\<open>main.go\<close>).
  \<^item> \<open>Samples\<close>: a concrete environment for the instances. This theory: the properties that span
    components.

  \<^bold>\<open>State and effects.\<close> A struct is a record and its methods are functions from the old state to the
  result and the new one. The server's shared state is \<open>World\<close>: the store, the hub and the bytes of
  the log. A connection has its \<open>Context\<close>. Errors are values of a sum type; \<open>None\<close> is a run-time
  panic. What a run cannot control is an argument: the readings of the clock, the order of range
  loops (\<open>Env\<close>), which writes to a socket succeed, and in the step relations the schedule.

  \<^bold>\<open>Bounds and fuel.\<close> \<open>Read_fuel\<close> gets the length of the input plus one, since every nested frame
  consumes its type byte (\<open>Read_total\<close>). \<open>Dispatch\<close> and \<open>exec\<close> call each other; depth 2 is enough
  (\<open>dispatch_total\<close>) and more never changes the result (\<open>dispatch_depth\<close>), as no queued command
  bypasses the queue. The loops of \<open>Replay\<close> and \<open>serve\<close> end because a successful read consumes
  input. A request takes finitely many steps of its goroutine (\<open>request_answered\<close>, by the lexicographic
  measure \<open>work\<close>: queued commands, then the calls of the current one); that these steps come needs a
  fair scheduler and mutex and a client that reads. A shutdown, once the accept loop has ended, takes a
  bounded number of steps of the server (\<open>shutdown_returns\<close>, by \<open>life_work\<close>).

  \<^bold>\<open>Not modelled, and why.\<close> Log lines (\<open>slog\<close>) have no effect on the state. Sockets, the listener and
  signals appear as the bytes a client sends, the success of a write, and the steps at which a
  connection arrives or a signal is delivered; buffering below the writer and the real length of
  the five seconds of grace do not (the timer may fire at any step). Decimal conversion of floats,
  the case tables of Unicode and \<open>path.Match\<close> are code of the Go distribution that the server only
  calls: they are parameters (\<open>Runtime\<close>), and the few laws used of them are hypotheses (that
  upper-casing is idempotent). Memory is unbounded but for the limit of a single \<open>make\<close>. The file
  system is modelled as far as the log needs it: appends, short and failed writes, \<open>fsync\<close>, and
  crashes that keep a prefix. Failing appends are in \<open>AofFile\<close> only: in the dispatcher and under
  concurrency every append succeeds. A write to a socket that fails counts as having sent nothing.
\<close>

section \<open>Properties of the whole server\<close>

subsection \<open>Every command\<close>

text \<open>C6: Every command that works on the store, called with the number of arguments its entry in the
  registry asks for, returns on every well-formed store: no index is out of range and no nil map is
  assigned. The store it leaves is well-formed (each entry holds a value of exactly its kind, no
  container is empty), and it is the old one if the reply is an error or the entry is not a write.\<close>

theorem command_contract:
  assumes "fmlookup NewRegistry name = Some spec" "SHandler spec = StoreHandler f"
    and "CheckArity spec (length args)" "wf_store s"
  shows "\<exists>v s'. f env s args = Some (v, s') \<and> wf_store s' \<and>
    (if vType v = TypeError \<or> \<not> SWrite spec then s' = s else True)"
proof -
  have "store_command_ok f (CheckArity spec) (SWrite spec)"
    using registry.table_ok [OF assms(1)] assms(2) by (simp add: spec_ok_def)
  with assms(3,4) show ?thesis unfolding store_command_ok_def by metis
qed

theorem command_contract_witness:
  "\<exists>v s'. get_cmd (sample_env 0) New [Bulk ''k''] = Some (v, s') \<and> wf_store s' \<and> s' = New"
proof -
  have "CheckArity (exact ''GET'' (StoreHandler get_cmd) 1) (length [Bulk ''k''])" by (simp add: argc_is_def)
  from command_contract [OF sample_lookups(1) spec_sel(4) this wf_New, of "sample_env 0"] show ?thesis by simp
qed

text \<open>C3: The dispatcher answers every request of every client: whatever the command, its arguments,
  the transaction it is in and the clock, \<open>Dispatch\<close> returns a reply and keeps the invariant of the
  store, the hub and the connection (every queued command is one that will pass validation). An error
  reply leaves the store and the log as they were.\<close>

theorem dispatch_total:
  assumes "same_runtime rt es" "upper_idem rt" "session_ok rt w ctx"
  shows "\<exists>v w' ctx'. Dispatch 2 es w ctx name args = Some (v, w', ctx') \<and> session_ok rt w' ctx' \<and>
    (if vType v = TypeError then wstore w' = wstore w \<and> waof w' = waof w else True)"
  using Dispatch_ok [OF assms, of 0 name args] by (auto simp: numeral_2_eq_2)

theorem dispatch_total_witness:
  "\<exists>v w' ctx'. Dispatch 2 (\<lambda>_. sample_env 0) sample_world NewContext ''incr'' [Bulk ''n''] = Some (v, w', ctx') \<and>
     session_ok sample_rt w' ctx'"
  using dispatch_total [of sample_rt "\<lambda>_. sample_env 0" sample_world NewContext "''incr''" "[Bulk ''n'']"] by auto

text \<open>The mutual recursion of \<open>Dispatch\<close> and \<open>exec\<close> ends after two levels: a deeper one never
  changes the result, because no queued command is \<open>MULTI\<close>, \<open>EXEC\<close> or \<open>DISCARD\<close>.\<close>

theorem dispatch_depth:
  assumes "same_runtime rt es" "session_ok rt w ctx"
  shows "Dispatch (Suc (Suc d)) es w ctx name args = Dispatch 2 es w ctx name args"
  using assms by (rule Dispatch_depth)

theorem dispatch_depth_witness:
  "Dispatch (Suc (Suc 5)) (\<lambda>_. sample_env 0) sample_world NewContext ''EXEC'' [] =
     Dispatch 2 (\<lambda>_. sample_env 0) sample_world NewContext ''EXEC'' []"
  by (rule dispatch_depth [OF sample_runtime(1) sample_session])

subsection \<open>Transactions\<close>

text \<open>C5: A transaction that no other client interferes with gives what its commands give one by one:
  between \<open>MULTI\<close> and \<open>EXEC\<close> every valid command is answered \<open>QUEUED\<close> and touches nothing, and \<open>EXEC\<close>
  returns the array of the replies that the same commands, dispatched one after the other outside a
  transaction, get, and leaves the same store, hub, log and connection.\<close>

theorem transaction_sequential:
  assumes "\<forall>i. same_runtime rt (es i)" "same_runtime rt ex" "upper_idem rt"
    and "session_ok rt w ctx" "\<not> inTx ctx" "\<not> txError ctx" "list_all (valid_cmd rt) cmds"
    and "es (Suc (length cmds)) = ex"
  shows "\<exists>vs w' ctx'. dispatch_seq (\<lambda>i _. ex (Suc i)) 0 cmds w ctx = Some (vs, w', ctx') \<and>
    dispatch_seq es 0 ((''MULTI'', []) # cmds @ [(''EXEC'', [])]) w ctx =
      Some (OK # replicate (length cmds) (Str ''QUEUED'') @ [Array vs], w', ctx')"
proof -
  define cm where "cm = ctx\<lparr>inTx := True, queue := [], txError := False\<rparr>"
  define cq where "cq = cm\<lparr>queue := map (as_queued rt) cmds\<rparr>"
  have q0: "queue ctx = []" using assms(4,5) by (simp add: session_ok_def)
  have reset: "cq\<lparr>inTx := False, queue := [], txError := False\<rparr> = ctx"
    using assms(5,6) q0 by (simp add: cq_def cm_def)
  have reg: "fmlookup NewRegistry ''MULTI'' = Some (exact ''MULTI'' (ConnHandler multi_cmd) 0)"
    "fmlookup NewRegistry ''EXEC'' = Some (exact ''EXEC'' ExecHandler 0)"
    by (simp_all add: NewRegistry_fold all_specs_def command_lists)
  note ds = Dispatch.simps numeral_2_eq_2 run_handler_def validate_def Lookup_def sample_uppers reg
    argc_is_def log_write_def commandsBypassingQueue_def
  have multi: "Dispatch 2 (es 0) w ctx ''MULTI'' [] = Some (OK, w, cm)"
    using assms(5) by (simp add: ds multi_cmd_def cm_def)
  have queued: "dispatch_seq es 1 cmds w cm = Some (replicate (length cmds) (Str ''QUEUED''), w, cq)"
    using queue_phase [where es = es and i = 1 and ctx = cm and w = w, OF assms(1) [rule_format] assms(7)]
    by (simp add: cm_def cq_def)
  have exq: "exec_queue (Dispatch 1) ex 1 (map (as_queued rt) cmds) w ctx = dispatch_seq (\<lambda>i _. ex (Suc i)) 0 cmds w ctx"
    using exec_queue_seq [OF assms(2,3,7,4,5), of 0 0] by simp
  obtain vs w' c' where vs: "dispatch_seq (\<lambda>i _. ex (Suc i)) 0 cmds w ctx = Some (vs, w', c')"
    using exec_queue_ok [OF assms(2), of "map (as_queued rt) cmds" w ctx 0 1] exq assms(4,5) as_queued_ok [OF assms(3,7)]
    by auto
  have "Dispatch 2 ex w cq ''EXEC'' [] = Some (Array vs, w', c')"
    using exq vs reset by (simp add: ds exec_cmd_def Let_def cq_def cm_def)
  with multi queued vs assms(8) show ?thesis
    by (simp add: dispatch_seq_append)
qed

theorem transaction_sequential_witness:
  "\<exists>vs w' ctx'. dispatch_seq (\<lambda>_ _. sample_env 0) 0 [(''incr'', [Bulk ''n''])] sample_world NewContext = Some (vs, w', ctx') \<and>
    dispatch_seq (\<lambda>_ _. sample_env 0) 0 ((''MULTI'', []) # [(''incr'', [Bulk ''n''])] @ [(''EXEC'', [])]) sample_world NewContext =
      Some (OK # replicate 1 (Str ''QUEUED'') @ [Array vs], w', ctx')"
  using transaction_sequential [of sample_rt "\<lambda>_ _. sample_env 0" "\<lambda>_. sample_env 0" sample_world NewContext
      "[(''incr'', [Bulk ''n''])]"]
  by (simp add: valid_cmd_def validate_def Lookup_def sample_uppers sample_lookups argc_is_def
      commandsBypassingQueue_def NewContext_def [THEN arg_cong [of _ _ inTx]] NewContext_def [THEN arg_cong [of _ _ txError]])

text \<open>C24: A command that fails validation inside a transaction dooms it: the error is reported at once,
  nothing changes but the mark, and \<open>EXEC\<close> on the marked transaction, whatever has been queued, runs
  nothing, leaves the whole server as it was and ends the transaction.\<close>

theorem transaction_aborts:
  assumes "same_runtime rt es" "inTx ctx" "ToUpper rt name \<notin> set commandsBypassingQueue"
    and "validate rt (ToUpper rt name) args = Inl err"
  shows "Dispatch 2 es w ctx name args = Some (err, w, ctx\<lparr>txError := True\<rparr>) \<and>
    Dispatch 2 es' w' (ctx\<lparr>txError := True, queue := q\<rparr>) ''EXEC'' [] =
      Some (Errorf ''EXECABORT Transaction discarded because of previous errors.'', w',
        ctx\<lparr>inTx := False, queue := [], txError := False\<rparr>)"
proof -
  have reg: "fmlookup NewRegistry ''EXEC'' = Some (exact ''EXEC'' ExecHandler 0)"
    by (simp add: NewRegistry_fold all_specs_def command_lists)
  have "''EXEC'' \<in> set commandsBypassingQueue" by (simp add: commandsBypassingQueue_def)
  with assms show ?thesis
    by (simp add: Dispatch.simps numeral_2_eq_2 same_runtimeD [OF assms(1)] queueCommand_def run_handler_def
        exec_cmd_def validate_def [of _ "''EXEC''"] Lookup_def sample_uppers reg argc_is_def log_write_def Let_def)
qed

theorem transaction_aborts_witness:
  "Dispatch 2 (\<lambda>_. sample_env 0) sample_world (NewContext\<lparr>inTx := True\<rparr>) ''NOSUCH'' [] =
     Some (unknownCommand ''NOSUCH'' [], sample_world, NewContext\<lparr>inTx := True, txError := True\<rparr>)"
  using transaction_aborts [of sample_rt "\<lambda>_. sample_env 0" "NewContext\<lparr>inTx := True\<rparr>" "''NOSUCH''" "[]"
      "unknownCommand ''NOSUCH'' []" sample_world]
  by (simp add: sample_uppers sample_lookups validate_def Lookup_def commandsBypassingQueue_def)

subsection \<open>Connections\<close>

text \<open>C9: A connection answers every request once and in order: for a client that sends well-formed
  frames and reads its replies, \<open>handleConn\<close> returns, and what it sends is, one after the other, the
  reply to each request as handled in the state that the requests before it have left (\<open>answers\<close>); the
  store and the log are those after the last request, the invariants of the store and the hub hold,
  and the subscriptions are those there were before: its own are gone, and nobody else's has changed.\<close>

theorem connection_replies:
  assumes "\<forall>i. same_runtime rt (es i)" "upper_idem rt" "list_all wire_ok reqs"
    and "wf_store (wstore w)" "wf_hub (whub w)"
  shows "\<exists>vs w2 ctx2 w'. answers es 0 reqs (fst (conn_open aof w)) (snd (conn_open aof w)) = Some (vs, w2, ctx2) \<and>
    handleConn aof (\<lambda>_. True) es is (requests reqs) w = Some (concat (map Write vs), w') \<and>
    wstore w' = wstore w2 \<and> waof w' = waof w2 \<and> wf_store (wstore w') \<and> wf_hub (whub w') \<and>
    subscriptions (whub w') = subscriptions (whub w)"
proof -
  obtain w1 ctx where o: "conn_open aof w = (w1, ctx)" by fastforce
  note opened = conn_open_ok [OF assms(4,5) o]
  obtain vs w2 c2 where s: "serve (\<lambda>_. True) es 0 (requests reqs) w1 ctx [] = Some ([] @ concat (map Write vs), w2, c2)"
      "answers es 0 reqs w1 ctx = Some (vs, w2, c2)" "session_ok rt w2 c2" "conn_grows ctx (whub w1) c2 (whub w2)"
    using serve_ok [where es = es and i = 0 and out = "[]", OF assms(1) [rule_format] assms(2,3) opened(1)] by blast
  obtain i where i: "sub ctx = Some i" "i |\<notin>| fmdom (subscribers (whub w))" "whub w1 = snd (NewSubscriber (whub w))"
    using conn_open_fresh [OF assms(5) o] by blast
  have c2: "sub c2 = Some i" "\<And>j ch. j \<noteq> i \<Longrightarrow> (j |\<in>| chan_subs (whub w2) ch) = (j |\<in>| chan_subs (whub w1) ch)"
    using s(4) i(1) by (auto simp: conn_grows_def)
  have w1: "chan_subs (whub w1) = chan_subs (whub w)"
    using i(3) NewSubscriber_simps(4) [of "whub w"] by (metis prod.collapse)
  have i0: "i |\<notin>| chan_subs (whub w) ch" for ch using wf_hub_allocated [OF assms(5)] i(2) by blast
  have wf: "wf_store (wstore w2)" "wf_hub (whub w2)" using s(3) by (simp_all add: session_ok_def)
  have "(j |\<in>| chan_subs (UnsubscribeAll is i (whub w2)) ch) = (j |\<in>| chan_subs (whub w) ch)" for j ch
    using c2(2) [of j ch] i0 w1 by (cases "j = i") (simp_all add: chan_subs_UnsubscribeAll [OF wf(2)])
  then have "subscriptions (UnsubscribeAll is i (whub w2)) = subscriptions (whub w)"
    by (simp add: subscriptions_def)
  then have "handleConn aof (\<lambda>_. True) es is (requests reqs) w =
      Some (concat (map Write vs), w2\<lparr>whub := UnsubscribeAll is i (whub w2)\<rparr>)"
    using s(1) c2(1) by (simp add: handleConn_def o ctx_Close_def)
  moreover have "answers es 0 reqs (fst (conn_open aof w)) (snd (conn_open aof w)) = Some (vs, w2, c2)"
    using s(2) o by simp
  ultimately show ?thesis
    using wf \<open>subscriptions (UnsubscribeAll is i (whub w2)) = subscriptions (whub w)\<close> wf_UnsubscribeAll [OF wf(2)]
    by fastforce
qed

theorem connection_replies_witness:
  "\<exists>vs w2 ctx2 w'. answers (\<lambda>_ _. sample_env 0) 0 [Array [Bulk ''PING''], OK] (fst (conn_open True sample_world))
       (snd (conn_open True sample_world)) = Some (vs, w2, ctx2) \<and>
     handleConn True (\<lambda>_. True) (\<lambda>_ _. sample_env 0) [] (requests [Array [Bulk ''PING''], OK]) sample_world =
       Some (concat (map Write vs), w')"
proof -
  have "list_all wire_ok [Array [Bulk ''PING''], OK]" by (simp add: value_defs maxAlloc_def sizeofValue_def)
  from connection_replies [of sample_rt "\<lambda>_ _. sample_env 0", OF _ _ this, of sample_world True "[]"]
  show ?thesis by (auto simp: wf_New wf_NewHub simp del: answers.simps)
qed

text \<open>C25: A connection in subscriber mode cannot reach the keyspace: whatever it sends, in or out of a
  transaction, the store and the log stay as they are.\<close>

theorem subscriber_mode_isolated:
  assumes "same_runtime rt es" "upper_idem rt" "session_ok rt w ctx" "InSubscriberMode ctx (whub w)"
  shows "\<exists>v b w' ctx'. handle_request es w ctx req = Some (v, b, w', ctx') \<and>
    wstore w' = wstore w \<and> waof w' = waof w"
proof (cases "vType req = TypeArray \<and> vElems req \<noteq> [] \<and>
    ToUpper rt (vStr (hd (vElems req))) \<in> set subscriberModeAllowed")
  case True
  define u where "u = ToUpper rt (vStr (hd (vElems req)))"
  have u: "ToUpper rt u = u" "u \<in> set subscriberModeAllowed"
    using assms(2) True by (simp_all add: u_def upper_idem_def)
  obtain v w' ctx' where d: "Dispatch 2 es w ctx u (tl (vElems req)) = Some (v, w', ctx')"
      "wstore w' = wstore w" "waof w' = waof w"
    using Dispatch_subscriber_cmd [OF assms(1-3) u] by blast
  with True assms(1) show ?thesis by (auto simp: handle_request_def same_runtimeD u_def Let_def)
next
  case False
  with assms(4) show ?thesis by (auto simp: handle_request_def same_runtimeD [OF assms(1)] Let_def)
qed

theorem subscriber_mode_isolated_witness:
  "\<exists>v b w' ctx'. handle_request (\<lambda>_. sample_env 0) (sample_world\<lparr>whub := sample_hub\<rparr>) (NewContext\<lparr>sub := Some 1\<rparr>)
       (Array [Bulk ''FLUSHALL'']) = Some (v, b, w', ctx') \<and> wstore w' = New \<and> waof w' = []"
proof -
  have n: "''news'' |\<in>| sub_channels sample_hub 1"
    using sample_hub_ok(1,3) by (simp add: subscriptions_def wf_hub_def)
  then have "0 < fcard (sub_channels sample_hub 1)" by (metis fcard_seteq fempty_iff fempty_fsubsetI gr0I le0 fcard_fempty)
  then have "InSubscriberMode (NewContext\<lparr>sub := Some 1\<rparr>) sample_hub"
    by (simp add: InSubscriberMode_def ChannelCount_def)
  moreover have "session_ok sample_rt (sample_world\<lparr>whub := sample_hub\<rparr>) (NewContext\<lparr>sub := Some 1\<rparr>)"
    using sample_hub_ok(1) sub_channels_allocated [OF n]
    by (simp add: session_ok_def sub_alloc_def NewContext_def wf_New)
  ultimately show ?thesis
    using subscriber_mode_isolated [of sample_rt "\<lambda>_. sample_env 0" "sample_world\<lparr>whub := sample_hub\<rparr>"
        "NewContext\<lparr>sub := Some 1\<rparr>"] by simp
qed

text \<open>C1: Persistence. Serve any clients one after the other with the log on, starting from an empty
  server; let each of them send any commands except those that set an expiry time. Then every
  connection returns, and a server restarted on the log, at any later time and ranging over its maps in
  any order, replays it without an error and has the same store.\<close>

theorem restart_restores_store:
  assumes "upper_idem rt" "list_all (client_ok rt) cs" "\<forall>n. same_runtime rt (es n)" "AOFPath cfg \<noteq> []"
  shows "\<exists>w. serve_clients True cs \<lparr>wstore = New, whub = NewHub, waof = []\<rparr> = Some w \<and>
    server_New es cfg (Some (waof w)) = Some (Inr \<lparr>wstore = wstore w, whub = NewHub, waof = waof w\<rparr>)"
proof -
  obtain w where "serve_clients True cs \<lparr>wstore = New, whub = NewHub, waof = []\<rparr> = Some w" "recoverable rt w"
    using recover_clients [OF assms(1,2), of "\<lparr>wstore = New, whub = NewHub, waof = []\<rparr>"] recoverable_New
    by (auto simp: wf_New wf_NewHub)
  with recoverable_restart [where es = es, OF _ assms(3) [rule_format] assms(4)] show ?thesis by blast
qed

definition sample_client :: client where
  "sample_client = \<lparr>cl_reqs = [Array [Bulk ''incr'', Bulk ''n'']], cl_env = (\<lambda>_ _. sample_env 3),
     cl_writes = (\<lambda>_. True), cl_iter = []\<rparr>"

lemma sample_client_ok: "client_ok sample_rt sample_client"
  by (simp add: client_ok_def sample_client_def durable_req_def sets_ttl_def sample_uppers value_defs
      maxAlloc_def sizeofValue_def)

theorem restart_restores_store_witness:
  "\<exists>w. serve_clients True [sample_client] \<lparr>wstore = New, whub = NewHub, waof = []\<rparr> = Some w \<and>
    server_New (\<lambda>_ _. sample_env 9) \<lparr>Addr = '':6379'', AOFPath = ''db.aof''\<rparr> (Some (waof w)) =
      Some (Inr \<lparr>wstore = wstore w, whub = NewHub, waof = waof w\<rparr>)"
  using restart_restores_store [of sample_rt "[sample_client]" "\<lambda>_ _. sample_env 9"
      "\<lparr>Addr = '':6379'', AOFPath = ''db.aof''\<rparr>"] sample_client_ok by simp

text \<open>C39: A replayed expiry time starts again. A client sends \<open>SETEX\<close> to a server with the log on; at
  the time \<open>t\<close> its seconds are over and the key is gone. A server restarted on the log that the first
  one wrote has the key at the same time \<open>t\<close>, with its value, as long as less than these seconds have
  passed since the restart: the log holds the seconds and not the deadline. (The clocks are after the
  zero time, and the seconds in nanoseconds fit into a duration.)\<close>

theorem replay_restarts_expiry:
  assumes "same_runtime rt live" "same_runtime rt (es 0)" "0 < sint n" "in_int64 (sint n * 1000000000)"
    and "length k \<le> maxAlloc" "length v \<le> maxAlloc" "AOFPath cfg \<noteq> []"
    and "0 < clk (live 0) 1" "clk (live 0) 1 + sint n * 1000000000 \<le> t" "t < clk (es 0 0) 1 + sint n * 1000000000"
  shows "\<exists>w ctx w'. Dispatch 2 live \<lparr>wstore = New, whub = NewHub, waof = []\<rparr> (NewContext\<lparr>OnWrite := True\<rparr>)
      ''SETEX'' [Bulk k, Bulk (FormatInt n), Bulk v] = Some (OK, w, ctx) \<and>
    Get (\<lambda>_. t) k (wstore w) = Inr None \<and>
    server_New es cfg (Some (waof w)) = Some (Inr w') \<and> Get (\<lambda>_. t) k (wstore w') = Inr (Some v)"
proof -
  let ?args = "[Bulk k, Bulk (FormatInt n), Bulk v]" and ?d = "sint n * 1000000000"
  define e where "e t = (string_entry v)\<lparr>expireAt := t + ?d\<rparr>" for t
  have dur: "sint (n * time_Second) = ?d"
    using assms(4) by (simp add: sint_mult64 time_Second_def)
  have set: "Dispatch 2 es' \<lparr>wstore = New, whub = NewHub, waof = f\<rparr> (NewContext\<lparr>OnWrite := b\<rparr>) ''SETEX'' ?args =
      Some (OK, \<lparr>wstore = put k (e (clk (es' 0) 1)) New, whub = NewHub,
        waof = (if b then aof_Append (Bulk ''SETEX'' # ?args) f else f)\<rparr>, NewContext\<lparr>OnWrite := b\<rparr>)"
    if "same_runtime rt es'" for es' f b
    by (simp add: Dispatch.simps numeral_2_eq_2 same_runtimeD [OF that] NewContext_def validate_def Lookup_def
        sample_uppers sample_lookups argc_is_def run_handler_def log_write_def setEX_cmd_plain dur e_def)
  have get: "Get (\<lambda>_. t) k (put k (e t0) New) = Inr (if t0 + ?d \<noteq> 0 \<and> t0 + ?d \<le> t then None else Some v)" for t0
    by (simp add: Get_def stringOrWrongType_def expired_def IsZero_def e_def)
  have ok: "list_all (\<lambda>c. wire_ok (Array c)) [Bulk ''SETEX'' # ?args]"
    using assms(5,6) FormatInt_short [of n] by (simp add: value_defs maxAlloc_def sizeofValue_def)
  let ?w0 = "\<lparr>wstore = New, whub = NewHub, waof = aof_file [Bulk ''SETEX'' # ?args]\<rparr>"
  have new: "NewContext\<lparr>OnWrite := False\<rparr> = NewContext" by (simp add: NewContext_def)
  have vs: "vStr (Bulk s) = s" for s by (simp add: Bulk_def)
  have "run_all (replay_fn es) [Bulk ''SETEX'' # ?args] (?w0, NewContext, 0) =
      Some (ReplayDone, (?w0\<lparr>wstore := put k (e (clk (es 0 0) 1)) New\<rparr>, NewContext, 1))"
    using set [OF assms(2), of _ False] by (simp add: replay_fn_def vs new)
  with Replay_aof_file [OF ok, of "replay_fn es" "(?w0, NewContext, 0)"] assms(7)
  have "server_New es cfg (Some (aof_file [Bulk ''SETEX'' # ?args])) =
      Some (Inr (?w0\<lparr>wstore := put k (e (clk (es 0 0) 1)) New\<rparr>))"
    by (simp add: server_New_def server_replay_def del: aof_file_Cons)
  moreover have "aof_Append (Bulk ''SETEX'' # ?args) [] = aof_file [Bulk ''SETEX'' # ?args]" by (simp add: aof_file_def)
  moreover have "clk (live 0) 1 + ?d \<noteq> 0" using assms(3,8) by simp
  ultimately show ?thesis using set [OF assms(1), of "[]" True] get assms(9,10) by simp
qed

theorem replay_restarts_expiry_witness:
  "\<exists>w ctx w'. Dispatch 2 (\<lambda>_. sample_env 5) \<lparr>wstore = New, whub = NewHub, waof = []\<rparr> (NewContext\<lparr>OnWrite := True\<rparr>)
      ''SETEX'' [Bulk ''k'', Bulk (FormatInt 10), Bulk ''v''] = Some (OK, w, ctx) \<and>
    Get (\<lambda>_. 20000000000) ''k'' (wstore w) = Inr None \<and>
    server_New (\<lambda>_ _. sample_env 20000000000) \<lparr>Addr = '':6379'', AOFPath = ''db.aof''\<rparr> (Some (waof w)) = Some (Inr w') \<and>
    Get (\<lambda>_. 20000000000) ''k'' (wstore w') = Inr (Some ''v'')"
  by (rule replay_restarts_expiry [OF sample_runtime(1) sample_runtime(1)]) (simp_all add: in_int64_def maxAlloc_def)

text \<open>A client can forge replies in its own stream: the name of an unknown command is echoed into a
  one-line error reply without a check for line breaks, so what follows a line break in the name
  reaches the client as further frames.\<close>

theorem reply_splitting:
  "Read (Write (unknownCommand (''x'' @ crlf @ p) args)) =
     Inr (Errorf (''ERR unknown command '' @ [CHR 0x27] @ ''x''),
       p @ [CHR 0x27] @ '', with args beginning with: '' @ quoted_args (argStrings args) @ crlf)"
proof -
  let ?l = "''ERR unknown command '' @ [CHR 0x27] @ ''x''"
  have "CHR 0x0A \<notin> set ?l" by simp
  from readLine_append [OF this] show ?thesis
    by (simp add: unknownCommand_def Errorf_def marshalLine_def Read_def del: append.simps)
qed

end
